theory Spec2Isabelle
  imports Main "HOL-Library.AList" "HOL-Library.Sublist"
begin

section \<open>The EMS scheduler of \<^verbatim>\<open>src/ems_scheduler.py\<close>\<close>

text \<open>
  The development embeds \<^verbatim>\<open>Scheduler.__init__\<close> and \<^verbatim>\<open>Scheduler.generate_schedule\<close>.
  Conventions of the embedding:
  \<^item> the roster \<^verbatim>\<open>staff_df\<close> is the list of its rows, in the frame's row order, with the
    four columns the code reads. A cell of the \<^verbatim>\<open>Availability\<close> column is a string
    or is missing (NaN/None): a missing cell is \<open>None\<close>. The frame is one that
    \<^verbatim>\<open>pd.read_excel\<close> builds, as \<^verbatim>\<open>main\<close> does: a column with rows and no string in it
    is a numeric column;
  \<^item> \<^verbatim>\<open>self.assignments\<close> is an insertion-ordered dictionary: an association list
    updated with \<open>AList.update\<close> (replace in place, or append a new key);
  \<^item> the random state behind \<^verbatim>\<open>DataFrame.sample\<close> is an explicit source of
    natural numbers that every draw consumes;
  \<^item> an exception is a value \<open>Inl e\<close>, returned together with the state the scheduler
    has at the moment of the raise.
\<close>

subsection \<open>Configuration\<close>

definition SHIFTS :: "string list" where
  "SHIFTS = [''AM'', ''Midday'', ''PM'']"

definition ROLES_NEEDED :: "string list" where
  "ROLES_NEEDED = [''Full EMT'', ''Probationary EMT'', ''Observer'']"

subsection \<open>Errors\<close>

text \<open>
  \<^verbatim>\<open>calendar.IllegalMonthError\<close> (a \<^verbatim>\<open>ValueError\<close>) carries the month;
  \<open>ValueError\<close> stands for the \<^verbatim>\<open>ValueError\<close> of \<^verbatim>\<open>datetime.date\<close> and of
  \<^verbatim>\<open>DataFrame.sample\<close>; \<open>OverflowError\<close> is raised by \<^verbatim>\<open>datetime.date\<close> for a year
  that does not fit a C \<^verbatim>\<open>int\<close>; \<open>AttributeError\<close> is raised by the \<^verbatim>\<open>.str\<close> accessor
  of a column that holds no string.
\<close>

datatype error = IllegalMonthError int | ValueError | OverflowError | AttributeError

subsection \<open>The calendar\<close>

definition isleap :: "int \<Rightarrow> bool" where
  "isleap year = (year mod 4 = 0 \<and> (year mod 100 \<noteq> 0 \<or> year mod 400 = 0))"

definition mdays :: "int list" where
  "mdays = [0, 31, 28, 31, 30, 31, 30, 31, 31, 30, 31, 30, 31]"

text \<open>
  \<^verbatim>\<open>calendar.monthrange(year, month)[1]\<close>: the month is checked, the year is not
  (outside 1..9999 the weekday is computed on \<^verbatim>\<open>2000 + year % 400\<close>, the number of days
  on the year itself).
\<close>

definition monthrange_ndays :: "int \<Rightarrow> int \<Rightarrow> error + int" where
  "monthrange_ndays year month =
     (if month < 1 \<or> 12 < month then Inl (IllegalMonthError month)
      else Inr (mdays ! nat month + (if month = 2 \<and> isleap year then 1 else 0)))"

text \<open>
  \<^verbatim>\<open>datetime.date(year, month, day)\<close>: the arguments are read as C \<^verbatim>\<open>int\<close>s (32 bits;
  here the month and the day are small), then the ranges are checked.
\<close>

definition date :: "int \<Rightarrow> int \<Rightarrow> int \<Rightarrow> error + (int \<times> int \<times> int)" where
  "date year month day =
     (if year < - 2147483648 \<or> 2147483647 < year then Inl OverflowError
      else if year < 1 \<or> 9999 < year then Inl ValueError
      else if month < 1 \<or> 12 < month then Inl ValueError
      else if day < 1 \<or> mdays ! nat month + (if month = 2 \<and> isleap year then 1 else 0) < day
        then Inl ValueError
      else Inr (year, month, day))"

definition digit :: "int \<Rightarrow> char" where
  "digit n = ''0123456789'' ! nat n"

definition zfill2 :: "int \<Rightarrow> string" where
  "zfill2 n = [digit (n div 10 mod 10), digit (n mod 10)]"

definition zfill4 :: "int \<Rightarrow> string" where
  "zfill4 n = [digit (n div 1000 mod 10), digit (n div 100 mod 10),
               digit (n div 10 mod 10), digit (n mod 10)]"

text \<open>
  \<^verbatim>\<open>%Y\<close> for the year of a date, which is between 1 and 9999. From 1000 on it is the
  four digits of the year. Below 1000 the C library decides: glibc writes the year
  without padding (\<^verbatim>\<open>date(999, 1, 1).strftime("%Y-%m-%d")\<close> is \<^verbatim>\<open>999-01-01\<close>), as
  here; other libraries pad with zeros. The statements that spell out key strings are
  made for the years from 1000 on, where all agree.
\<close>

definition strftime_Y :: "int \<Rightarrow> string" where
  "strftime_Y y =
     (if y < 10 then [digit y]
      else if y < 100 then [digit (y div 10 mod 10), digit (y mod 10)]
      else if y < 1000 then [digit (y div 100 mod 10), digit (y div 10 mod 10), digit (y mod 10)]
      else zfill4 y)"

text \<open>\<^verbatim>\<open>d.strftime("%Y-%m-%d")\<close>: month and day on two digits.\<close>

fun strftime_ymd :: "int \<times> int \<times> int \<Rightarrow> string" where
  "strftime_ymd (y, m, d) = strftime_Y y @ ''-'' @ zfill2 m @ ''-'' @ zfill2 d"

subsection \<open>The roster\<close>

record staff_row =
  Name :: string
  Role :: string
  Availability :: "string option"
  Paid :: bool

type_synonym pick = "string \<times> string \<times> bool"

text \<open>
  \<^verbatim>\<open>Series.str\<close>: the accessor checks the column when it is taken. A column with rows
  and no string in it (every cell missing) is a \<^verbatim>\<open>float64\<close> column, and the accessor
  raises \<^verbatim>\<open>AttributeError\<close> (Can only use .str accessor with string values); a column
  without rows, or with a string in some row, has the accessor.
\<close>

definition str_accessor :: "string option list \<Rightarrow> error + unit" where
  "str_accessor col =
     (if col \<noteq> [] \<and> list_all (\<lambda>cell. cell = None) col then Inl AttributeError else Inr ())"

text \<open>
  \<^verbatim>\<open>Series.str.contains(pat, na=False)\<close> on one cell. The pattern is searched anywhere in
  the cell, case-sensitively; the three shift names have no regular-expression
  metacharacter, so the search is the search of a literal. A missing cell gives
  \<^verbatim>\<open>na\<close>, here \<open>False\<close>.
\<close>

fun starts_with :: "string \<Rightarrow> string \<Rightarrow> bool" where
  "starts_with s [] = True"
| "starts_with [] (p # ps) = False"
| "starts_with (c # cs) (p # ps) = (c = p \<and> starts_with cs ps)"

fun str_search :: "string \<Rightarrow> string \<Rightarrow> bool" where
  "str_search [] pat = starts_with [] pat"
| "str_search (c # cs) pat = (starts_with (c # cs) pat \<or> str_search cs pat)"

definition str_contains :: "string option \<Rightarrow> string \<Rightarrow> bool" where
  "str_contains cell pat = (case cell of None \<Rightarrow> False | Some s \<Rightarrow> str_search s pat)"

text \<open>
  \<^verbatim>\<open>self.staff_df[mask]\<close>: indexing by a boolean mask keeps the rows whose mask entry
  is true, in row order. \<open>available_rows\<close> is the frame that line 43 computes once the
  column has given its accessor.
\<close>

definition getitem_mask :: "'a list \<Rightarrow> bool list \<Rightarrow> 'a list" where
  "getitem_mask df flags = map fst (filter snd (zip df flags))"

definition available_rows :: "staff_row list \<Rightarrow> string \<Rightarrow> staff_row list" where
  "available_rows df shift =
     getitem_mask df (map (\<lambda>cell. str_contains cell shift) (map Availability df))"

subsection \<open>Sampling\<close>

text \<open>
  The random source is a sequence of natural numbers; a draw takes the first and
  leaves the rest.
\<close>

type_synonym rng = "nat \<Rightarrow> nat"

definition rng_next :: "rng \<Rightarrow> nat \<times> rng" where
  "rng_next g = (g 0, \<lambda>i. g (Suc i))"

text \<open>
  \<^verbatim>\<open>random_state.choice(population, size=n, replace=False)\<close>: \<open>n\<close> draws, each
  removing the drawn element from the population.
\<close>

fun choice :: "nat \<Rightarrow> 'a list \<Rightarrow> rng \<Rightarrow> 'a list \<times> rng" where
  "choice 0 xs g = ([], g)"
| "choice (Suc n) [] g = ([], g)"
| "choice (Suc n) (x # xs) g =
     (let (r, g1) = rng_next g;
          i = r mod length (x # xs);
          (ys, g2) = choice n (take i (x # xs) @ drop (Suc i) (x # xs)) g1
      in ((x # xs) ! i # ys, g2))"

text \<open>
  \<^verbatim>\<open>DataFrame.sample(n)\<close>: without replacement by default, so a sample larger than the
  frame raises; otherwise \<open>n\<close> row positions are chosen and the rows at these
  positions are taken, in the order chosen.
\<close>

definition sample :: "'a list \<Rightarrow> nat \<Rightarrow> rng \<Rightarrow> error + ('a list \<times> rng)" where
  "sample df n g =
     (if length df < n then Inl ValueError
      else (let (locs, g1) = choice n [0..<length df] g in Inr (map (\<lambda>i. df ! i) locs, g1)))"

subsection \<open>The scheduler\<close>

record scheduler =
  staff_df :: "staff_row list"
  max_week_paid_hours :: int
  max_hours_per_person :: "int option"
  assignments :: "((string \<times> string) \<times> pick list) list"
  violations :: "string list"

text \<open>\<^verbatim>\<open>Scheduler.__init__\<close>.\<close>

definition Scheduler_init :: "staff_row list \<Rightarrow> int \<Rightarrow> int option \<Rightarrow> scheduler" where
  "Scheduler_init df mw mh =
     \<lparr>staff_df = df, max_week_paid_hours = mw, max_hours_per_person = mh,
      assignments = [], violations = []\<rparr>"

definition pick_of :: "staff_row \<Rightarrow> pick" where
  "pick_of row = (Name row, Role row, Paid row)"

definition roles_present :: "pick list \<Rightarrow> string set" where
  "roles_present picks = set (map (\<lambda>(_, r, _). r) picks)"

text \<open>The f-string \<^verbatim>\<open>f"{day_key} {shift}: missing role {needed}"\<close>.\<close>

definition missing_role :: "string \<Rightarrow> string \<Rightarrow> string \<Rightarrow> string" where
  "missing_role day_key shift needed = day_key @ '' '' @ shift @ '': missing role '' @ needed"

text \<open>The body of the loop over \<^verbatim>\<open>SHIFTS\<close> (lines 43 to 54).\<close>

definition shift_body ::
  "string \<Rightarrow> string \<Rightarrow> scheduler \<times> rng \<Rightarrow> (error + unit) \<times> scheduler \<times> rng" where
  "shift_body day_key shift st =
     (let (self, g) = st
      in case str_accessor (map Availability (staff_df self)) of
           Inl e \<Rightarrow> (Inl e, self, g)
         | Inr _ \<Rightarrow>
             (let available = available_rows (staff_df self) shift
              in case (if available \<noteq> [] then sample available (min 3 (length available)) g
                       else Inr ([], g)) of
                   Inl e \<Rightarrow> (Inl e, self, g)
                 | Inr (sampled, g1) \<Rightarrow>
                     (let picks = map pick_of sampled;
                          self1 = self\<lparr>assignments :=
                            AList.update (day_key, shift) picks (assignments self)\<rparr>;
                          present = roles_present picks;
                          self2 = self1\<lparr>violations := violations self1 @
                            map (missing_role day_key shift)
                              (filter (\<lambda>needed. needed \<notin> present) ROLES_NEEDED)\<rparr>
                      in (Inr (), self2, g1))))"

fun shifts_loop ::
  "string \<Rightarrow> string list \<Rightarrow> scheduler \<times> rng \<Rightarrow> (error + unit) \<times> scheduler \<times> rng" where
  "shifts_loop day_key [] st = (Inr (), st)"
| "shifts_loop day_key (shift # rest) st =
     (case shift_body day_key shift st of
        (Inl e, st1) \<Rightarrow> (Inl e, st1)
      | (Inr _, st1) \<Rightarrow> shifts_loop day_key rest st1)"

text \<open>The loop over the days (lines 40 to 54).\<close>

fun days_loop ::
  "int \<Rightarrow> int \<Rightarrow> int list \<Rightarrow> scheduler \<times> rng \<Rightarrow> (error + unit) \<times> scheduler \<times> rng" where
  "days_loop year month [] st = (Inr (), st)"
| "days_loop year month (d # ds) st =
     (case date year month d of
        Inl e \<Rightarrow> (Inl e, st)
      | Inr dt \<Rightarrow>
          (case shifts_loop (strftime_ymd dt) SHIFTS st of
             (Inl e, st1) \<Rightarrow> (Inl e, st1)
           | (Inr _, st1) \<Rightarrow> days_loop year month ds st1))"

text \<open>
  \<^verbatim>\<open>Scheduler.generate_schedule\<close>: both containers are cleared first, then the number
  of days is computed, then the slots are filled.
\<close>

definition generate_schedule ::
  "scheduler \<Rightarrow> rng \<Rightarrow> int \<Rightarrow> int \<Rightarrow> (error + unit) \<times> scheduler \<times> rng" where
  "generate_schedule self g year month =
     (let self0 = self\<lparr>assignments := [], violations := []\<rparr>
      in case monthrange_ndays year month of
           Inl e \<Rightarrow> (Inl e, self0, g)
         | Inr num_days \<Rightarrow> days_loop year month [1..num_days] (self0, g))"

subsection \<open>Notions used in the statements\<close>

text \<open>The two parts of what a call returns that the statements read.\<close>

definition outcome :: "(error + unit) \<times> scheduler \<times> rng \<Rightarrow> error + unit" where
  "outcome res = fst res"

definition scheduler_after :: "(error + unit) \<times> scheduler \<times> rng \<Rightarrow> scheduler" where
  "scheduler_after res = fst (snd res)"

text \<open>The slot keys of a list of days: each day with every shift, in the order of the loops.\<close>

definition slot_keys :: "int \<Rightarrow> int \<Rightarrow> int list \<Rightarrow> (string \<times> string) list" where
  "slot_keys year month ds =
     concat (map (\<lambda>d. map (\<lambda>shift. (strftime_ymd (year, month, d), shift)) SHIFTS) ds)"

text \<open>
  The picks of one slot come from a sample of the available rows when they are the
  picks of the rows at pairwise different positions, as many as \<open>min 3\<close> of their number.
\<close>

definition sampled_from :: "staff_row list \<Rightarrow> pick list \<Rightarrow> bool" where
  "sampled_from available picks =
     (\<exists>locs. distinct locs \<and> set locs \<subseteq> {..<length available} \<and>
             length locs = min 3 (length available) \<and>
             picks = map (\<lambda>i. pick_of (available ! i)) locs)"

text \<open>The violations of one slot: a message for each needed role that no pick has.\<close>

definition slot_violations :: "string \<times> string \<Rightarrow> pick list \<Rightarrow> string list" where
  "slot_violations k picks =
     map (missing_role (fst k) (snd k))
       (filter (\<lambda>needed. needed \<notin> roles_present picks) ROLES_NEEDED)"

section \<open>Properties\<close>

subsection \<open>Strings and the availability filter\<close>




lemma getitem_mask_map: "getitem_mask df (map P df) = filter P df"
  by (induction df) (auto simp: getitem_mask_def)

lemma available_rows_filter:
  "available_rows df shift = filter (\<lambda>row. str_contains (Availability row) shift) df"
  by (simp add: available_rows_def getitem_mask_map[symmetric] comp_def)

subsection \<open>Sampling without replacement\<close>

lemma choice_length: "length (fst (choice n xs g)) = min n (length xs)"
proof (induction n xs g rule: choice.induct)
  case (3 n x xs g)
  then show ?case 
    by (auto simp: Let_def split: prod.splits)
qed auto


lemma remove_nth_set: "set (take i zs @ drop (Suc i) zs) \<subseteq> set zs"
  using set_take_subset[of i zs] set_drop_subset[of "Suc i" zs] by auto

lemma remove_nth_distinct:
  assumes "distinct zs" "i < length zs"
  shows "distinct (take i zs @ drop (Suc i) zs) \<and> zs ! i \<notin> set (take i zs @ drop (Suc i) zs)"
proof -
  have "distinct (take i zs @ zs ! i # drop (Suc i) zs)"
    using assms id_take_nth_drop[of i zs] by simp
  then show ?thesis by auto
qed

lemma choice_set: "set (fst (choice n xs g)) \<subseteq> set xs"
proof (induction n xs g rule: choice.induct)
  case (3 n x xs g)
  define i where "i = fst (rng_next g) mod length (x # xs)"
  define rest where "rest = take i (x # xs) @ drop (Suc i) (x # xs)"
  have i: "i < length (x # xs)" by (simp add: i_def)
  have ih: "set (fst (choice n rest (snd (rng_next g)))) \<subseteq> set rest"
    using "3.IH"[of "rng_next g" "fst (rng_next g)" "snd (rng_next g)" i] by (simp add: i_def rest_def)
  have "fst (choice (Suc n) (x # xs) g) = (x # xs) ! i # fst (choice n rest (snd (rng_next g)))"
    by (simp add: Let_def i_def rest_def split: prod.splits)
  moreover have "(x # xs) ! i \<in> set (x # xs)" using i nth_mem by blast
  moreover have "set rest \<subseteq> set (x # xs)" unfolding rest_def by (rule remove_nth_set)
  ultimately show ?case using ih by auto
qed auto

lemma choice_distinct: "distinct xs \<Longrightarrow> distinct (fst (choice n xs g))"
proof (induction n xs g rule: choice.induct)
  case (3 n x xs g)
  define i where "i = fst (rng_next g) mod length (x # xs)"
  define rest where "rest = take i (x # xs) @ drop (Suc i) (x # xs)"
  have i: "i < length (x # xs)" by (simp add: i_def)
  have d: "distinct rest" "(x # xs) ! i \<notin> set rest"
    using remove_nth_distinct[OF "3.prems" i] by (simp_all add: rest_def)
  have ih: "distinct (fst (choice n rest (snd (rng_next g))))"
    using "3.IH"[of "rng_next g" "fst (rng_next g)" "snd (rng_next g)" i] d(1) by (simp add: i_def rest_def)
  have "fst (choice (Suc n) (x # xs) g) = (x # xs) ! i # fst (choice n rest (snd (rng_next g)))"
    by (simp add: Let_def i_def rest_def split: prod.splits)
  moreover have "set (fst (choice n rest (snd (rng_next g)))) \<subseteq> set rest" by (rule choice_set)
  ultimately show ?case using ih d(2) by auto
qed auto

lemma sample_ok:
  assumes "n \<le> length df"
  shows "\<exists>locs g1. sample df n g = Inr (map (\<lambda>i. df ! i) locs, g1) \<and> distinct locs \<and>
           set locs \<subseteq> {..<length df} \<and> length locs = n"
proof -
  obtain locs g1 where c: "choice n [0..<length df] g = (locs, g1)" by (cases "choice n [0..<length df] g")
  have "distinct locs" using choice_distinct[of "[0..<length df]" n g] c by simp
  moreover have "set locs \<subseteq> {..<length df}" using choice_set[of n "[0..<length df]" g] c by auto
  moreover have "length locs = n" using choice_length[of n "[0..<length df]" g] c assms by simp
  moreover have "sample df n g = Inr (map (\<lambda>i. df ! i) locs, g1)" using assms c by (simp add: sample_def)
  ultimately show ?thesis by blast
qed

subsection \<open>One slot and the loop over the shifts\<close>

lemma update_fresh: "k \<notin> fst ` set al \<Longrightarrow> AList.update k v al = al @ [(k, v)]"
  by (induction al) auto

lemma sampled_from_Nil: "sampled_from [] []"
  by (simp add: sampled_from_def)

lemma shift_body_ok:
  assumes ok: "str_accessor (map Availability (staff_df s)) = Inr ()"
  shows "\<exists>picks g1. shift_body day shift (s, g) =
      (Inr (), s\<lparr>assignments := AList.update (day, shift) picks (assignments s),
                 violations := violations s @ slot_violations (day, shift) picks\<rparr>, g1) \<and>
      sampled_from (available_rows (staff_df s) shift) picks"
proof (cases "available_rows (staff_df s) shift = []")
  case True
  then have "shift_body day shift (s, g) =
      (Inr (), s\<lparr>assignments := AList.update (day, shift) [] (assignments s),
                 violations := violations s @ slot_violations (day, shift) []\<rparr>, g)"
    using ok by (simp add: shift_body_def slot_violations_def)
  with True show ?thesis using sampled_from_Nil by metis
next
  case False
  define av where "av = available_rows (staff_df s) shift"
  have "min 3 (length av) \<le> length av" by simp
  from sample_ok[OF this, of g] obtain locs g1 where
    sm: "sample av (min 3 (length av)) g = Inr (map (\<lambda>i. av ! i) locs, g1)"
    and l: "distinct locs" "set locs \<subseteq> {..<length av}" "length locs = min 3 (length av)"
    by blast
  define picks where "picks = map (\<lambda>i. pick_of (av ! i)) locs"
  have sf: "sampled_from av picks"
    unfolding sampled_from_def picks_def using l by blast
  have "shift_body day shift (s, g) =
      (Inr (), s\<lparr>assignments := AList.update (day, shift) picks (assignments s),
                 violations := violations s @ slot_violations (day, shift) picks\<rparr>, g1)"
    using False sm ok
    by (simp add: shift_body_def slot_violations_def av_def[symmetric] picks_def comp_def Let_def)
  with sf show ?thesis unfolding av_def by blast
qed

lemma shifts_loop_ok:
  assumes "distinct shs" "\<forall>sh \<in> set shs. (day, sh) \<notin> fst ` set (assignments s)"
    and "str_accessor (map Availability (staff_df s)) = Inr ()"
  shows "\<exists>ps g'. shifts_loop day shs (s, g) =
      (Inr (), s\<lparr>assignments := assignments s @ zip (map (Pair day) shs) ps,
                 violations := violations s @
                   concat (map2 slot_violations (map (Pair day) shs) ps)\<rparr>, g') \<and>
      list_all2 (\<lambda>k p. sampled_from (available_rows (staff_df s) (snd k)) p) (map (Pair day) shs) ps"
  using assms
proof (induction shs arbitrary: s g)
  case Nil
  show ?case by simp
next
  case (Cons sh shs)
  obtain picks g1 where b: "shift_body day sh (s, g) =
      (Inr (), s\<lparr>assignments := AList.update (day, sh) picks (assignments s),
                 violations := violations s @ slot_violations (day, sh) picks\<rparr>, g1)"
    and sf: "sampled_from (available_rows (staff_df s) sh) picks"
    using shift_body_ok[OF Cons.prems(3)] by blast
  define s1 where "s1 = s\<lparr>assignments := assignments s @ [((day, sh), picks)],
                 violations := violations s @ slot_violations (day, sh) picks\<rparr>"
  have fresh: "(day, sh) \<notin> fst ` set (assignments s)" using Cons.prems(2) by simp
  have b1: "shift_body day sh (s, g) = (Inr (), s1, g1)"
    using b by (simp add: s1_def update_fresh[OF fresh])
  have d: "distinct shs" using Cons.prems(1) by simp
  have f1: "\<forall>sh' \<in> set shs. (day, sh') \<notin> fst ` set (assignments s1)"
    using Cons.prems(1,2) by (auto simp: s1_def)
  have ok1: "str_accessor (map Availability (staff_df s1)) = Inr ()"
    using Cons.prems(3) by (simp add: s1_def)
  from Cons.IH[OF d f1 ok1, of g1] obtain ps g' where
    l: "shifts_loop day shs (s1, g1) =
      (Inr (), s1\<lparr>assignments := assignments s1 @ zip (map (Pair day) shs) ps,
                 violations := violations s1 @
                   concat (map2 slot_violations (map (Pair day) shs) ps)\<rparr>, g')"
    and a: "list_all2 (\<lambda>k p. sampled_from (available_rows (staff_df s1) (snd k)) p) (map (Pair day) shs) ps"
    by blast
  have "shifts_loop day (sh # shs) (s, g) =
      (Inr (), s\<lparr>assignments := assignments s @ zip (map (Pair day) (sh # shs)) (picks # ps),
                 violations := violations s @
                   concat (map2 slot_violations (map (Pair day) (sh # shs)) (picks # ps))\<rparr>, g')"
    using b1 l by (simp add: s1_def)
  moreover have "list_all2 (\<lambda>k p. sampled_from (available_rows (staff_df s) (snd k)) p)
      (map (Pair day) (sh # shs)) (picks # ps)"
    using a sf by (simp add: s1_def)
  ultimately show ?case by blast
qed


subsection \<open>Dates\<close>

lemma month_cases:
  assumes "1 \<le> m" "m \<le> 12"
  shows "m = 1 \<or> m = 2 \<or> m = 3 \<or> m = 4 \<or> m = 5 \<or> m = 6 \<or> m = 7 \<or> m = 8 \<or> m = 9 \<or>
         m = 10 \<or> m = 11 \<or> m = (12::int)"
  using assms by arith

lemma mdays_bounds:
  assumes "1 \<le> m" "m \<le> 12"
  shows "28 \<le> mdays ! nat m \<and> mdays ! nat m \<le> 31 \<and> (m = 2 \<longrightarrow> mdays ! nat m = 28)"
  using month_cases[OF assms] by (auto simp: mdays_def)

lemma monthrange_ndays_Inr:
  assumes "monthrange_ndays y m = Inr n"
  shows "1 \<le> m \<and> m \<le> 12 \<and> 28 \<le> n \<and> n \<le> 31 \<and>
         n = mdays ! nat m + (if m = 2 \<and> isleap y then 1 else 0)"
proof -
  have m: "1 \<le> m" "m \<le> 12"
    using assms by (auto simp: monthrange_ndays_def split: if_splits)
  have n: "n = mdays ! nat m + (if m = 2 \<and> isleap y then 1 else 0)"
    using assms m by (auto simp: monthrange_ndays_def split: if_splits)
  show ?thesis using m n mdays_bounds[OF m] by auto
qed

lemma date_ok:
  assumes "1 \<le> y" "y \<le> 9999" "monthrange_ndays y m = Inr n" "1 \<le> d" "d \<le> n"
  shows "date y m d = Inr (y, m, d)"
  using assms monthrange_ndays_Inr[OF assms(3)] by (auto simp: date_def)

lemma digit_cases:
  assumes "0 \<le> a" "a \<le> 9"
  shows "a = 0 \<or> a = 1 \<or> a = 2 \<or> a = 3 \<or> a = 4 \<or> a = 5 \<or> a = 6 \<or> a = 7 \<or> a = 8 \<or> a = (9::int)"
  using assms by arith

lemma digit_inj:
  assumes "0 \<le> a" "a \<le> 9" "0 \<le> b" "b \<le> 9" "digit a = digit b"
  shows "a = b"
  using digit_cases[OF assms(1,2)] digit_cases[OF assms(3,4)] assms(5)
  by (auto simp: digit_def)

lemma zfill2_inj:
  assumes "0 \<le> a" "a < 100" "0 \<le> b" "b < 100" "zfill2 a = zfill2 b"
  shows "a = b"
proof -
  have ra: "0 \<le> a div 10 mod 10" "a div 10 mod 10 \<le> 9" "0 \<le> a mod 10" "a mod 10 \<le> 9"
    by simp_all
  have rb: "0 \<le> b div 10 mod 10" "b div 10 mod 10 \<le> 9" "0 \<le> b mod 10" "b mod 10 \<le> 9"
    by simp_all
  have d1: "digit (a div 10 mod 10) = digit (b div 10 mod 10)"
    and d2: "digit (a mod 10) = digit (b mod 10)"
    using assms(5) by (simp_all add: zfill2_def)
  have hi: "a div 10 mod 10 = b div 10 mod 10"
    using ra(1,2) rb(1,2) d1 by (rule digit_inj)
  have lo: "a mod 10 = b mod 10"
    using ra(3,4) rb(3,4) d2 by (rule digit_inj)
  have sa: "a div 10 mod 10 = a div 10" using assms(1,2) by simp
  have sb: "b div 10 mod 10 = b div 10" using assms(3,4) by simp
  have q: "a div 10 = b div 10" using hi unfolding sa sb .
  have "a = 10 * (a div 10) + a mod 10" by simp
  also have "\<dots> = 10 * (b div 10) + b mod 10" unfolding q lo ..
  also have "\<dots> = b" by simp
  finally show ?thesis .
qed

lemma strftime_ymd_inj:
  assumes "0 \<le> a" "a < 100" "0 \<le> b" "b < 100"
    "strftime_ymd (y, m, a) = strftime_ymd (y, m, b)"
  shows "a = b"
  using assms zfill2_inj[OF assms(1-4)] by simp


subsection \<open>The loops\<close>

lemma slot_keys_Cons:
  "slot_keys y m (d # ds) = map (Pair (strftime_ymd (y, m, d))) SHIFTS @ slot_keys y m ds"
  by (simp add: slot_keys_def)

lemma slot_keys_fst:
  "k \<in> set (slot_keys y m ds) \<Longrightarrow> \<exists>d \<in> set ds. fst k = strftime_ymd (y, m, d)"
  by (auto simp: slot_keys_def)

lemma distinct_SHIFTS: "distinct SHIFTS"
  by (simp add: SHIFTS_def)

lemma days_loop_ok:
  assumes "\<forall>d \<in> set ds. date y m d = Inr (y, m, d)"
    and "distinct ds" and "\<forall>d \<in> set ds. 0 \<le> d \<and> d < 100"
    and "\<forall>k \<in> set (slot_keys y m ds). k \<notin> fst ` set (assignments s)"
    and "str_accessor (map Availability (staff_df s)) = Inr ()"
  shows "\<exists>ps g'. days_loop y m ds (s, g) =
      (Inr (), s\<lparr>assignments := assignments s @ zip (slot_keys y m ds) ps,
                 violations := violations s @
                   concat (map2 slot_violations (slot_keys y m ds) ps)\<rparr>, g') \<and>
      list_all2 (\<lambda>k p. sampled_from (available_rows (staff_df s) (snd k)) p) (slot_keys y m ds) ps"
  using assms
proof (induction ds arbitrary: s g)
  case Nil
  show ?case by (simp add: slot_keys_def)
next
  case (Cons d ds)
  define day where "day = strftime_ymd (y, m, d)"
  define ks where "ks = map (Pair day) SHIFTS"
  have keys: "slot_keys y m (d # ds) = ks @ slot_keys y m ds"
    by (simp add: slot_keys_Cons ks_def day_def)
  have dt: "date y m d = Inr (y, m, d)" using Cons.prems(1) by simp
  have fresh: "\<forall>sh \<in> set SHIFTS. (day, sh) \<notin> fst ` set (assignments s)"
    using Cons.prems(4) unfolding keys ks_def by auto
  from shifts_loop_ok[OF distinct_SHIFTS fresh Cons.prems(5), of g] obtain ps1 g1 where
    l1: "shifts_loop day SHIFTS (s, g) =
      (Inr (), s\<lparr>assignments := assignments s @ zip ks ps1,
                 violations := violations s @ concat (map2 slot_violations ks ps1)\<rparr>, g1)"
    and a1: "list_all2 (\<lambda>k p. sampled_from (available_rows (staff_df s) (snd k)) p) ks ps1"
    unfolding ks_def by blast
  define s1 where "s1 = s\<lparr>assignments := assignments s @ zip ks ps1,
                 violations := violations s @ concat (map2 slot_violations ks ps1)\<rparr>"
  have len1: "length ks = length ps1" using a1 by (rule list_all2_lengthD)
  have keys1: "fst ` set (assignments s1) = fst ` set (assignments s) \<union> set ks"
    using len1 by (simp add: s1_def image_Un flip: set_map)
  have others: "k \<notin> set ks" if kin: "k \<in> set (slot_keys y m ds)" for k
  proof
    assume "k \<in> set ks"
    then have "fst k = strftime_ymd (y, m, d)" by (auto simp: ks_def day_def)
    moreover obtain d' where d': "d' \<in> set ds" "fst k = strftime_ymd (y, m, d')"
      using slot_keys_fst[OF kin] by blast
    ultimately have "d = d'"
      using Cons.prems(3) by (intro strftime_ymd_inj[of d d' y m]) auto
    with d'(1) Cons.prems(2) show False by simp
  qed
  have f1: "\<forall>k \<in> set (slot_keys y m ds). k \<notin> fst ` set (assignments s1)"
    using Cons.prems(4) others unfolding keys keys1 by auto
  have p1: "\<forall>d \<in> set ds. date y m d = Inr (y, m, d)" using Cons.prems(1) by simp
  have p2: "distinct ds" using Cons.prems(2) by simp
  have p3: "\<forall>d \<in> set ds. 0 \<le> d \<and> d < 100" using Cons.prems(3) by simp
  have ok1: "str_accessor (map Availability (staff_df s1)) = Inr ()"
    using Cons.prems(5) by (simp add: s1_def)
  from Cons.IH[OF p1 p2 p3 f1 ok1, of g1] obtain ps2 g' where
    l2: "days_loop y m ds (s1, g1) =
      (Inr (), s1\<lparr>assignments := assignments s1 @ zip (slot_keys y m ds) ps2,
                 violations := violations s1 @
                   concat (map2 slot_violations (slot_keys y m ds) ps2)\<rparr>, g')"
    and a2: "list_all2 (\<lambda>k p. sampled_from (available_rows (staff_df s1) (snd k)) p)
               (slot_keys y m ds) ps2"
    by blast
  have "days_loop y m (d # ds) (s, g) =
      (Inr (), s\<lparr>assignments := assignments s @ zip (slot_keys y m (d # ds)) (ps1 @ ps2),
                 violations := violations s @
                   concat (map2 slot_violations (slot_keys y m (d # ds)) (ps1 @ ps2))\<rparr>, g')"
    using dt l1 l2 len1 unfolding keys
    by (simp add: day_def[symmetric] s1_def del: strftime_ymd.simps)
  moreover have "list_all2 (\<lambda>k p. sampled_from (available_rows (staff_df s) (snd k)) p)
      (slot_keys y m (d # ds)) (ps1 @ ps2)"
    unfolding keys using a1 a2 by (simp add: s1_def list_all2_appendI)
  ultimately show ?case by blast
qed

lemma slot_keys_distinct:
  assumes "distinct ds" "\<forall>d \<in> set ds. 0 \<le> d \<and> d < 100"
  shows "distinct (slot_keys y m ds)"
  using assms
proof (induction ds)
  case Nil
  show ?case by (simp add: slot_keys_def)
next
  case (Cons d ds)
  have "k \<notin> set (slot_keys y m ds)" if "k \<in> set (map (Pair (strftime_ymd (y, m, d))) SHIFTS)" for k
  proof
    assume "k \<in> set (slot_keys y m ds)"
    then obtain d' where d': "d' \<in> set ds" "fst k = strftime_ymd (y, m, d')"
      using slot_keys_fst by blast
    moreover have "fst k = strftime_ymd (y, m, d)" using that by auto
    ultimately have "d = d'"
      using Cons.prems(2) by (intro strftime_ymd_inj[of d d' y m]) auto
    with d'(1) Cons.prems(1) show False by simp
  qed
  moreover have "distinct (map (Pair (strftime_ymd (y, m, d))) SHIFTS)"
    by (simp add: distinct_map distinct_SHIFTS inj_on_def)
  moreover have "distinct (slot_keys y m ds)" using Cons by simp
  ultimately show ?case unfolding slot_keys_Cons by auto
qed

lemma slot_keys_length: "length (slot_keys y m ds) = length ds * 3"
  by (induction ds) (simp_all add: slot_keys_def SHIFTS_def)

lemma generate_schedule_ok:
  assumes "1 \<le> y" "y \<le> 9999" "monthrange_ndays y m = Inr n"
    and "str_accessor (map Availability (staff_df s)) = Inr ()"
  shows "\<exists>ps g'. generate_schedule s g y m =
      (Inr (), s\<lparr>assignments := zip (slot_keys y m [1..n]) ps,
                 violations := concat (map2 slot_violations (slot_keys y m [1..n]) ps)\<rparr>, g') \<and>
      list_all2 (\<lambda>k p. sampled_from (available_rows (staff_df s) (snd k)) p) (slot_keys y m [1..n]) ps"
proof -
  define s0 where "s0 = s\<lparr>assignments := [], violations := []\<rparr>"
  have n: "n \<le> 31" using monthrange_ndays_Inr[OF assms(3)] by simp
  have 1: "\<forall>d \<in> set [1..n]. date y m d = Inr (y, m, d)"
    using date_ok[OF assms(1-3)] by simp
  have 2: "distinct [1..n]" by simp
  have 3: "\<forall>d \<in> set [1..n]. 0 \<le> d \<and> d < 100" using n by auto
  have 4: "\<forall>k \<in> set (slot_keys y m [1..n]). k \<notin> fst ` set (assignments s0)"
    by (simp add: s0_def)
  have 5: "str_accessor (map Availability (staff_df s0)) = Inr ()"
    using assms(4) by (simp add: s0_def)
  from days_loop_ok[OF 1 2 3 4 5, of g] obtain ps g' where
    l: "days_loop y m [1..n] (s0, g) =
      (Inr (), s0\<lparr>assignments := assignments s0 @ zip (slot_keys y m [1..n]) ps,
                 violations := violations s0 @
                   concat (map2 slot_violations (slot_keys y m [1..n]) ps)\<rparr>, g')"
    and a: "list_all2 (\<lambda>k p. sampled_from (available_rows (staff_df s0) (snd k)) p)
               (slot_keys y m [1..n]) ps"
    by blast
  have "generate_schedule s g y m =
      (Inr (), s\<lparr>assignments := zip (slot_keys y m [1..n]) ps,
                 violations := concat (map2 slot_violations (slot_keys y m [1..n]) ps)\<rparr>, g')"
    using l assms(3) by (simp add: generate_schedule_def s0_def)
  moreover have "list_all2 (\<lambda>k p. sampled_from (available_rows (staff_df s) (snd k)) p)
      (slot_keys y m [1..n]) ps"
    using a by (simp add: s0_def)
  ultimately show ?thesis by blast
qed

section \<open>The claims, with the lemmas they rest on\<close>



subsection \<open>What a successful call leaves\<close>

lemma generate_schedule_shape:
  assumes "1 \<le> y" "y \<le> 9999" "monthrange_ndays y m = Inr n"
    and "str_accessor (map Availability (staff_df s)) = Inr ()"
  shows "\<exists>ps. outcome (generate_schedule s g y m) = Inr () \<and>
      length ps = length (slot_keys y m [1..n]) \<and>
      staff_df (scheduler_after (generate_schedule s g y m)) = staff_df s \<and>
      assignments (scheduler_after (generate_schedule s g y m)) = zip (slot_keys y m [1..n]) ps \<and>
      violations (scheduler_after (generate_schedule s g y m)) =
        concat (map2 slot_violations (slot_keys y m [1..n]) ps) \<and>
      list_all2 (\<lambda>k p. sampled_from (available_rows (staff_df s) (snd k)) p)
        (slot_keys y m [1..n]) ps"
proof -
  from generate_schedule_ok[OF assms, of g] obtain ps g' where
    e: "generate_schedule s g y m =
      (Inr (), s\<lparr>assignments := zip (slot_keys y m [1..n]) ps,
                 violations := concat (map2 slot_violations (slot_keys y m [1..n]) ps)\<rparr>, g')"
    and a: "list_all2 (\<lambda>k p. sampled_from (available_rows (staff_df s) (snd k)) p)
        (slot_keys y m [1..n]) ps"
    by blast
  have "length ps = length (slot_keys y m [1..n])"
    using a by (simp add: list_all2_lengthD)
  with e a show ?thesis by (auto simp: outcome_def scheduler_after_def)
qed

lemma slot_keys_month_distinct:
  assumes "monthrange_ndays y m = Inr n"
  shows "distinct (slot_keys y m [1..n])"
proof -
  have "n \<le> 31" using monthrange_ndays_Inr[OF assms] by simp
  then have "\<forall>d \<in> set [1..n]. 0 \<le> d \<and> d < 100" by auto
  then show ?thesis by (intro slot_keys_distinct) simp_all
qed

lemma slot_keys_month_length:
  assumes "monthrange_ndays y m = Inr n"
  shows "length (slot_keys y m [1..n]) = nat n * 3"
  using monthrange_ndays_Inr[OF assms] by (simp add: slot_keys_length)

lemma slot_keys_member:
  assumes "d \<in> set ds" "shift \<in> set SHIFTS"
  shows "(strftime_ymd (y, m, d), shift) \<in> set (slot_keys y m ds)"
  using assms by (auto simp: slot_keys_def simp del: strftime_ymd.simps)

lemma slot_keys_snd: "k \<in> set (slot_keys y m ds) \<Longrightarrow> snd k \<in> set SHIFTS"
  by (auto simp: slot_keys_def)

lemma slot_keys_shifts:
  "map snd (slot_keys y m ds) = concat (replicate (length ds) [''AM'', ''Midday'', ''PM''])"
  by (induction ds) (simp_all add: slot_keys_def SHIFTS_def)

lemma slot_keys_month_shifts:
  assumes "monthrange_ndays y m = Inr n"
  shows "map snd (slot_keys y m [1..n]) = concat (replicate (nat n) [''AM'', ''Midday'', ''PM''])"
  using monthrange_ndays_Inr[OF assms] by (simp add: slot_keys_shifts)

lemma zip_lookup:
  assumes "length ks = length ps" "distinct ks" "k \<in> set ks" "list_all2 P ks ps"
  shows "\<exists>p. map_of (zip ks ps) k = Some p \<and> P k p"
proof -
  obtain i where i: "i < length ks" "ks ! i = k"
    using assms(3) by (auto simp: in_set_conv_nth)
  have "map_of (zip ks ps) (ks ! i) = Some (ps ! i)"
    using assms(1,2) i(1) by (intro map_of_zip_nth) simp_all
  moreover have "P (ks ! i) (ps ! i)" using assms(4) i(1) by (rule list_all2_nthD)
  ultimately show ?thesis using i(2) by auto
qed

lemma zip_entry:
  assumes "list_all2 P ks ps" "(k, p) \<in> set (zip ks ps)"
  shows "k \<in> set ks \<and> P k p"
  using assms by (auto simp: list_all2_iff dest: set_zip_leftD)

lemma slot_lookup:
  assumes "1 \<le> y" "y \<le> 9999" "monthrange_ndays y m = Inr n"
    and "str_accessor (map Availability (staff_df s)) = Inr ()"
    and "k \<in> set (slot_keys y m [1..n])"
  shows "\<exists>picks. map_of (assignments (scheduler_after (generate_schedule s g y m))) k = Some picks \<and>
           sampled_from (available_rows (staff_df s) (snd k)) picks"
proof -
  from generate_schedule_shape[OF assms(1-4), of g] obtain ps where
    l: "length ps = length (slot_keys y m [1..n])"
    and a: "assignments (scheduler_after (generate_schedule s g y m)) = zip (slot_keys y m [1..n]) ps"
    and p: "list_all2 (\<lambda>k p. sampled_from (available_rows (staff_df s) (snd k)) p)
        (slot_keys y m [1..n]) ps"
    by blast
  show ?thesis
    unfolding a using zip_lookup[OF l[symmetric] slot_keys_month_distinct[OF assms(3)] assms(5) p] .
qed

lemma slot_entry:
  assumes "1 \<le> y" "y \<le> 9999" "monthrange_ndays y m = Inr n"
    and "str_accessor (map Availability (staff_df s)) = Inr ()"
    and "(k, picks) \<in> set (assignments (scheduler_after (generate_schedule s g y m)))"
  shows "k \<in> set (slot_keys y m [1..n]) \<and> sampled_from (available_rows (staff_df s) (snd k)) picks"
proof -
  from generate_schedule_shape[OF assms(1-4), of g] obtain ps where
    a: "assignments (scheduler_after (generate_schedule s g y m)) = zip (slot_keys y m [1..n]) ps"
    and p: "list_all2 (\<lambda>k p. sampled_from (available_rows (staff_df s) (snd k)) p)
        (slot_keys y m [1..n]) ps"
    by blast
  show ?thesis using zip_entry[OF p] assms(5) unfolding a by blast
qed

lemma generate_schedule_keys_valid:
  assumes "1 \<le> y" "y \<le> 9999" "monthrange_ndays y m = Inr n"
    and "str_accessor (map Availability (staff_df s)) = Inr ()"
  shows "map fst (assignments (scheduler_after (generate_schedule s g y m))) = slot_keys y m [1..n]"
proof -
  from generate_schedule_shape[OF assms, of g] obtain ps where
    l: "length ps = length (slot_keys y m [1..n])"
    and a: "assignments (scheduler_after (generate_schedule s g y m)) = zip (slot_keys y m [1..n]) ps"
    by blast
  show ?thesis unfolding a using l by simp
qed

lemma generate_schedule_length:
  assumes "1 \<le> y" "y \<le> 9999" "monthrange_ndays y m = Inr n"
    and "str_accessor (map Availability (staff_df s)) = Inr ()"
  shows "length (assignments (scheduler_after (generate_schedule s g y m))) = nat n * 3"
  using arg_cong[OF generate_schedule_keys_valid[OF assms, of g], of length]
    slot_keys_month_length[OF assms(3)]
  by simp

lemma strftime_ymd_2024_02_01: "strftime_ymd (2024, 2, 1) = ''2024-02-01''"
  by (simp add: strftime_Y_def zfill4_def zfill2_def digit_def)

lemma monthrange_ndays_2024_02: "monthrange_ndays 2024 2 = Inr 29"
  by (simp add: monthrange_ndays_def mdays_def isleap_def)

text \<open>
  Claim C1. For every valid year and month (a year that \<open>date\<close> accepts, a month that
  \<open>monthrange_ndays\<close> accepts, with \<open>n\<close> days) and a roster whose Availability column
  has the string accessor, \<open>generate_schedule\<close> returns normally and leaves exactly
  \<open>n * 3\<close> assignments: no key occurs twice, and the shifts of the keys are AM, Midday,
  PM, repeated \<open>n\<close> times. From the year 1000 on the keys are, in order, the dates of
  the days 1 to \<open>n\<close>, each with AM, Midday and PM, and every such slot has an entry
  (whatever its picks, empty or not).
\<close>

theorem generate_schedule_one_entry_per_slot:
  assumes "1 \<le> year" "year \<le> 9999" "monthrange_ndays year month = Inr n"
    and "str_accessor (map Availability (staff_df self)) = Inr ()"
  shows "outcome (generate_schedule self g year month) = Inr () \<and>
    length (assignments (scheduler_after (generate_schedule self g year month))) = nat n * 3 \<and>
    distinct (map fst (assignments (scheduler_after (generate_schedule self g year month)))) \<and>
    map snd (map fst (assignments (scheduler_after (generate_schedule self g year month)))) =
      concat (replicate (nat n) [''AM'', ''Midday'', ''PM'']) \<and>
    (1000 \<le> year \<longrightarrow>
       map fst (assignments (scheduler_after (generate_schedule self g year month))) =
         concat (map (\<lambda>d. map (\<lambda>shift. (strftime_ymd (year, month, d), shift))
                       [''AM'', ''Midday'', ''PM'']) [1..n]) \<and>
       (\<forall>d \<in> {1..n}. \<forall>shift \<in> set [''AM'', ''Midday'', ''PM'']. \<exists>picks.
          map_of (assignments (scheduler_after (generate_schedule self g year month)))
            (strftime_ymd (year, month, d), shift) = Some picks))"
proof -
  have o: "outcome (generate_schedule self g year month) = Inr ()"
    using generate_schedule_shape[OF assms, of g] by blast
  have keys: "map fst (assignments (scheduler_after (generate_schedule self g year month))) =
      slot_keys year month [1..n]"
    by (rule generate_schedule_keys_valid[OF assms])
  have len: "length (assignments (scheduler_after (generate_schedule self g year month))) = nat n * 3"
    by (rule generate_schedule_length[OF assms])
  have dist: "distinct (map fst (assignments (scheduler_after (generate_schedule self g year month))))"
    unfolding keys by (rule slot_keys_month_distinct[OF assms(3)])
  have shifts: "map snd (map fst (assignments (scheduler_after (generate_schedule self g year month)))) =
      concat (replicate (nat n) [''AM'', ''Midday'', ''PM''])"
    unfolding keys by (rule slot_keys_month_shifts[OF assms(3)])
  have keys': "map fst (assignments (scheduler_after (generate_schedule self g year month))) =
         concat (map (\<lambda>d. map (\<lambda>shift. (strftime_ymd (year, month, d), shift))
                       [''AM'', ''Midday'', ''PM'']) [1..n])"
    unfolding keys slot_keys_def SHIFTS_def ..
  have each: "\<exists>picks. map_of (assignments (scheduler_after (generate_schedule self g year month)))
         (strftime_ymd (year, month, d), shift) = Some picks"
    if "d \<in> {1..n}" "shift \<in> set [''AM'', ''Midday'', ''PM'']" for d shift
  proof -
    have "shift \<in> set SHIFTS" using that(2) by (simp add: SHIFTS_def)
    then have "(strftime_ymd (year, month, d), shift) \<in> set (slot_keys year month [1..n])"
      using that(1) by (intro slot_keys_member) simp_all
    from slot_lookup[OF assms this, of g] show ?thesis by blast
  qed
  from o len dist shifts keys' each show ?thesis by blast
qed

theorem generate_schedule_one_entry_per_slot_witness:
  "(1::int) \<le> 2024 \<and> (2024::int) \<le> 9999 \<and> monthrange_ndays 2024 2 = Inr 29 \<and>
   str_accessor (map Availability (staff_df (Scheduler_init
     [\<lparr>Name = ''Alice'', Role = ''Full EMT'', Availability = Some ''AM'', Paid = True\<rparr>]
     240 None))) = Inr () \<and>
   length (assignments (scheduler_after (generate_schedule
     (Scheduler_init [\<lparr>Name = ''Alice'', Role = ''Full EMT'', Availability = Some ''AM'', Paid = True\<rparr>]
        240 None) (\<lambda>i. i) 2024 2))) = 87 \<and>
   (\<exists>picks. map_of (assignments (scheduler_after (generate_schedule
     (Scheduler_init [\<lparr>Name = ''Alice'', Role = ''Full EMT'', Availability = Some ''AM'', Paid = True\<rparr>]
        240 None) (\<lambda>i. i) 2024 2))) (''2024-02-01'', ''AM'') = Some picks)"
proof -
  note h = monthrange_ndays_2024_02
  have y: "(1::int) \<le> 2024" "(2024::int) \<le> 9999" by simp_all
  have a: "str_accessor (map Availability (staff_df (Scheduler_init
     [\<lparr>Name = ''Alice'', Role = ''Full EMT'', Availability = Some ''AM'', Paid = True\<rparr>]
     240 None))) = Inr ()"
    by (simp add: Scheduler_init_def str_accessor_def)
  note t = generate_schedule_one_entry_per_slot[OF y h a, of "\<lambda>i. i"]
  have len: "length (assignments (scheduler_after (generate_schedule
     (Scheduler_init [\<lparr>Name = ''Alice'', Role = ''Full EMT'', Availability = Some ''AM'', Paid = True\<rparr>]
        240 None) (\<lambda>i. i) 2024 2))) = nat 29 * 3"
    using t by (rule conjunct1[OF conjunct2])
  have "\<forall>d \<in> {1..29::int}. \<forall>shift \<in> set [''AM'', ''Midday'', ''PM'']. \<exists>picks.
          map_of (assignments (scheduler_after (generate_schedule
     (Scheduler_init [\<lparr>Name = ''Alice'', Role = ''Full EMT'', Availability = Some ''AM'', Paid = True\<rparr>]
        240 None) (\<lambda>i. i) 2024 2)))
            (strftime_ymd (2024, 2, d), shift) = Some picks"
    using t by simp
  then have "\<exists>picks. map_of (assignments (scheduler_after (generate_schedule
     (Scheduler_init [\<lparr>Name = ''Alice'', Role = ''Full EMT'', Availability = Some ''AM'', Paid = True\<rparr>]
        240 None) (\<lambda>i. i) 2024 2))) (strftime_ymd (2024, 2, 1), ''AM'') = Some picks"
    by simp
  then have "\<exists>picks. map_of (assignments (scheduler_after (generate_schedule
     (Scheduler_init [\<lparr>Name = ''Alice'', Role = ''Full EMT'', Availability = Some ''AM'', Paid = True\<rparr>]
        240 None) (\<lambda>i. i) 2024 2))) (''2024-02-01'', ''AM'') = Some picks"
    unfolding strftime_ymd_2024_02_01 .
  with h a len show ?thesis by simp
qed

subsection \<open>The picks of a slot\<close>

lemma sampled_from_length:
  "sampled_from av picks \<Longrightarrow> length picks = min 3 (length av)"
  by (auto simp: sampled_from_def)

text \<open>
  Claim C3. For every valid year and month and a roster whose Availability column has
  the string accessor, every one of the \<open>n * 3\<close> assignments has as many picks as
  \<open>min 3\<close> of the number of rows the availability filter returns for the shift of its
  key; with four or more available rows the number is exactly 3. From the year 1000 on,
  this is the entry found under the date of each day from 1 to \<open>n\<close> and each of AM,
  Midday and PM.
\<close>

theorem generate_schedule_pick_count:
  assumes "1 \<le> year" "year \<le> 9999" "monthrange_ndays year month = Inr n"
    and "str_accessor (map Availability (staff_df self)) = Inr ()"
  shows "length (assignments (scheduler_after (generate_schedule self g year month))) = nat n * 3 \<and>
    (\<forall>entry \<in> set (assignments (scheduler_after (generate_schedule self g year month))).
       length (snd entry) = min 3 (length (available_rows (staff_df self) (snd (fst entry)))) \<and>
       (4 \<le> length (available_rows (staff_df self) (snd (fst entry))) \<longrightarrow>
          length (snd entry) = 3)) \<and>
    (1000 \<le> year \<longrightarrow>
       (\<forall>d \<in> {1..n}. \<forall>shift \<in> set [''AM'', ''Midday'', ''PM'']. \<exists>picks.
          map_of (assignments (scheduler_after (generate_schedule self g year month)))
            (strftime_ymd (year, month, d), shift) = Some picks \<and>
          length picks = min 3 (length (available_rows (staff_df self) shift)) \<and>
          (4 \<le> length (available_rows (staff_df self) shift) \<longrightarrow> length picks = 3)))"
proof -
  have len: "length (assignments (scheduler_after (generate_schedule self g year month))) = nat n * 3"
    by (rule generate_schedule_length[OF assms])
  have entry: "length (snd entry) = min 3 (length (available_rows (staff_df self) (snd (fst entry)))) \<and>
       (4 \<le> length (available_rows (staff_df self) (snd (fst entry))) \<longrightarrow>
          length (snd entry) = 3)"
    if e: "entry \<in> set (assignments (scheduler_after (generate_schedule self g year month)))"
    for entry
  proof -
    have "(fst entry, snd entry) \<in>
        set (assignments (scheduler_after (generate_schedule self g year month)))"
      using e by simp
    from slot_entry[OF assms this]
    have "sampled_from (available_rows (staff_df self) (snd (fst entry))) (snd entry)" by simp
    from sampled_from_length[OF this] show ?thesis by auto
  qed
  have slot: "\<exists>picks.
          map_of (assignments (scheduler_after (generate_schedule self g year month)))
            (strftime_ymd (year, month, d), shift) = Some picks \<and>
          length picks = min 3 (length (available_rows (staff_df self) shift)) \<and>
          (4 \<le> length (available_rows (staff_df self) shift) \<longrightarrow> length picks = 3)"
    if "d \<in> {1..n}" "shift \<in> set [''AM'', ''Midday'', ''PM'']" for d shift
  proof -
    have "shift \<in> set SHIFTS" using that(2) by (simp add: SHIFTS_def)
    then have "(strftime_ymd (year, month, d), shift) \<in> set (slot_keys year month [1..n])"
      using that(1) by (intro slot_keys_member) simp_all
    from slot_lookup[OF assms this, of g] obtain picks where
      m: "map_of (assignments (scheduler_after (generate_schedule self g year month)))
        (strftime_ymd (year, month, d), shift) = Some picks"
      and sf: "sampled_from (available_rows (staff_df self) shift) picks"
      by auto
    have "length picks = min 3 (length (available_rows (staff_df self) shift))"
      using sf by (rule sampled_from_length)
    with m show ?thesis by auto
  qed
  from len entry slot show ?thesis by blast
qed

theorem generate_schedule_pick_count_witness:
  "(1::int) \<le> 2024 \<and> (2024::int) \<le> 9999 \<and> monthrange_ndays 2024 2 = Inr 29 \<and>
   str_accessor (map Availability (staff_df (Scheduler_init
        [\<lparr>Name = ''Alice'', Role = ''Full EMT'', Availability = Some ''AM'', Paid = True\<rparr>,
         \<lparr>Name = ''Bob'', Role = ''Observer'', Availability = Some ''AM,PM'', Paid = False\<rparr>,
         \<lparr>Name = ''Carol'', Role = ''Observer'', Availability = Some ''AM'', Paid = False\<rparr>,
         \<lparr>Name = ''Dan'', Role = ''Probationary EMT'', Availability = Some ''Midday,AM'', Paid = True\<rparr>]
        240 None))) = Inr () \<and>
   (\<exists>picks. map_of (assignments (scheduler_after (generate_schedule
     (Scheduler_init
        [\<lparr>Name = ''Alice'', Role = ''Full EMT'', Availability = Some ''AM'', Paid = True\<rparr>,
         \<lparr>Name = ''Bob'', Role = ''Observer'', Availability = Some ''AM,PM'', Paid = False\<rparr>,
         \<lparr>Name = ''Carol'', Role = ''Observer'', Availability = Some ''AM'', Paid = False\<rparr>,
         \<lparr>Name = ''Dan'', Role = ''Probationary EMT'', Availability = Some ''Midday,AM'', Paid = True\<rparr>]
        240 None) (\<lambda>i. i) 2024 2))) (''2024-02-01'', ''AM'') = Some picks \<and>
     length picks = 3)"
proof -
  define df where "df =
        [\<lparr>Name = ''Alice'', Role = ''Full EMT'', Availability = Some ''AM'', Paid = True\<rparr>,
         \<lparr>Name = ''Bob'', Role = ''Observer'', Availability = Some ''AM,PM'', Paid = False\<rparr>,
         \<lparr>Name = ''Carol'', Role = ''Observer'', Availability = Some ''AM'', Paid = False\<rparr>,
         \<lparr>Name = ''Dan'', Role = ''Probationary EMT'', Availability = Some ''Midday,AM'', Paid = True\<rparr>]"
  note h = monthrange_ndays_2024_02
  have y: "(1::int) \<le> 2024" "(2024::int) \<le> 9999" by simp_all
  have a: "str_accessor (map Availability (staff_df (Scheduler_init df 240 None))) = Inr ()"
    by (simp add: Scheduler_init_def str_accessor_def df_def)
  have av: "length (available_rows (staff_df (Scheduler_init df 240 None)) ''AM'') = 4"
    by (simp add: Scheduler_init_def df_def available_rows_def getitem_mask_def str_contains_def)
  note t = generate_schedule_pick_count[OF y h a, of "\<lambda>i. i"]
  have "\<forall>d \<in> {1..29::int}. \<forall>shift \<in> set [''AM'', ''Midday'', ''PM'']. \<exists>picks.
          map_of (assignments (scheduler_after
              (generate_schedule (Scheduler_init df 240 None) (\<lambda>i. i) 2024 2)))
            (strftime_ymd (2024, 2, d), shift) = Some picks \<and>
          length picks = min 3 (length (available_rows (staff_df (Scheduler_init df 240 None)) shift)) \<and>
          (4 \<le> length (available_rows (staff_df (Scheduler_init df 240 None)) shift) \<longrightarrow>
             length picks = 3)"
    using t by simp
  then have "\<exists>picks.
          map_of (assignments (scheduler_after
              (generate_schedule (Scheduler_init df 240 None) (\<lambda>i. i) 2024 2)))
            (strftime_ymd (2024, 2, 1), ''AM'') = Some picks \<and>
          length picks = min 3 (length (available_rows (staff_df (Scheduler_init df 240 None)) ''AM'')) \<and>
          (4 \<le> length (available_rows (staff_df (Scheduler_init df 240 None)) ''AM'') \<longrightarrow>
             length picks = 3)"
    by simp
  then have "\<exists>picks.
          map_of (assignments (scheduler_after
              (generate_schedule (Scheduler_init df 240 None) (\<lambda>i. i) 2024 2)))
            (''2024-02-01'', ''AM'') = Some picks \<and> length picks = 3"
    unfolding strftime_ymd_2024_02_01 av by simp
  with h a show ?thesis unfolding df_def by simp
qed

lemma available_rows_names:
  "distinct (map Name df) \<Longrightarrow> distinct (map Name (available_rows df shift))"
  by (simp add: available_rows_filter distinct_map_filter)

lemma picks_names_distinct:
  assumes "distinct (map Name av)" "distinct locs" "set locs \<subseteq> {..<length av}"
  shows "distinct (map fst (map (\<lambda>i. pick_of (av ! i)) locs))"
proof -
  have "inj_on (\<lambda>i. Name (av ! i)) (set locs)"
  proof (rule inj_onI)
    fix i j assume ij: "i \<in> set locs" "j \<in> set locs" "Name (av ! i) = Name (av ! j)"
    then have "i < length av" "j < length av" using assms(3) by auto
    then have "map Name av ! i = map Name av ! j \<longleftrightarrow> i = j"
      using assms(1) by (simp add: nth_eq_iff_index_eq del: nth_map)
    with ij(3) \<open>i < length av\<close> \<open>j < length av\<close> show "i = j" by simp
  qed
  then have "distinct (map (\<lambda>i. Name (av ! i)) locs)"
    using assms(2) by (simp add: distinct_map)
  then show ?thesis by (simp add: pick_of_def comp_def)
qed

lemma sampled_from_positions:
  assumes "sampled_from (available_rows df shift) picks"
  shows "\<exists>locs. distinct locs \<and> set locs \<subseteq> {..<length (available_rows df shift)} \<and>
    picks = map (\<lambda>i. pick_of (available_rows df shift ! i)) locs \<and>
    (distinct (map Name df) \<longrightarrow> distinct (map fst picks) \<and> distinct picks)"
proof -
  from assms obtain locs where l: "distinct locs"
    "set locs \<subseteq> {..<length (available_rows df shift)}"
    "picks = map (\<lambda>i. pick_of (available_rows df shift ! i)) locs"
    unfolding sampled_from_def by blast
  have "distinct (map fst picks) \<and> distinct picks" if "distinct (map Name df)"
  proof -
    have "distinct (map fst picks)"
      unfolding l(3) using available_rows_names[OF that] l(1,2) by (rule picks_names_distinct)
    then show ?thesis by (simp add: distinct_map)
  qed
  with l show ?thesis by blast
qed

text \<open>
  Claim C4. For every valid year and month and a roster whose Availability column has
  the string accessor, the picks of every one of the \<open>n * 3\<close> assignments are the picks
  of rows at pairwise different positions of the rows available for the shift of its key:
  no row of the roster is taken twice for one slot. When the names of the roster are
  pairwise different, so are the names of the picks, and no pick occurs twice. From the
  year 1000 on, this is the entry found under the date of each day from 1 to \<open>n\<close> and
  each of AM, Midday and PM.
\<close>

theorem generate_schedule_picks_without_replacement:
  assumes "1 \<le> year" "year \<le> 9999" "monthrange_ndays year month = Inr n"
    and "str_accessor (map Availability (staff_df self)) = Inr ()"
  shows "length (assignments (scheduler_after (generate_schedule self g year month))) = nat n * 3 \<and>
    (\<forall>entry \<in> set (assignments (scheduler_after (generate_schedule self g year month))).
       \<exists>locs. distinct locs \<and>
         set locs \<subseteq> {..<length (available_rows (staff_df self) (snd (fst entry)))} \<and>
         snd entry = map (\<lambda>i. pick_of (available_rows (staff_df self) (snd (fst entry)) ! i)) locs \<and>
         (distinct (map Name (staff_df self)) \<longrightarrow>
            distinct (map fst (snd entry)) \<and> distinct (snd entry))) \<and>
    (1000 \<le> year \<longrightarrow>
       (\<forall>d \<in> {1..n}. \<forall>shift \<in> set [''AM'', ''Midday'', ''PM'']. \<exists>picks locs.
          map_of (assignments (scheduler_after (generate_schedule self g year month)))
            (strftime_ymd (year, month, d), shift) = Some picks \<and>
          distinct locs \<and> set locs \<subseteq> {..<length (available_rows (staff_df self) shift)} \<and>
          picks = map (\<lambda>i. pick_of (available_rows (staff_df self) shift ! i)) locs \<and>
          (distinct (map Name (staff_df self)) \<longrightarrow> distinct (map fst picks) \<and> distinct picks)))"
proof -
  have len: "length (assignments (scheduler_after (generate_schedule self g year month))) = nat n * 3"
    by (rule generate_schedule_length[OF assms])
  have entry: "\<exists>locs. distinct locs \<and>
         set locs \<subseteq> {..<length (available_rows (staff_df self) (snd (fst entry)))} \<and>
         snd entry = map (\<lambda>i. pick_of (available_rows (staff_df self) (snd (fst entry)) ! i)) locs \<and>
         (distinct (map Name (staff_df self)) \<longrightarrow>
            distinct (map fst (snd entry)) \<and> distinct (snd entry))"
    if e: "entry \<in> set (assignments (scheduler_after (generate_schedule self g year month)))"
    for entry
  proof -
    have "(fst entry, snd entry) \<in>
        set (assignments (scheduler_after (generate_schedule self g year month)))"
      using e by simp
    from slot_entry[OF assms this]
    have "sampled_from (available_rows (staff_df self) (snd (fst entry))) (snd entry)" by simp
    then show ?thesis by (rule sampled_from_positions)
  qed
  have slot: "\<exists>picks locs.
          map_of (assignments (scheduler_after (generate_schedule self g year month)))
            (strftime_ymd (year, month, d), shift) = Some picks \<and>
          distinct locs \<and> set locs \<subseteq> {..<length (available_rows (staff_df self) shift)} \<and>
          picks = map (\<lambda>i. pick_of (available_rows (staff_df self) shift ! i)) locs \<and>
          (distinct (map Name (staff_df self)) \<longrightarrow> distinct (map fst picks) \<and> distinct picks)"
    if "d \<in> {1..n}" "shift \<in> set [''AM'', ''Midday'', ''PM'']" for d shift
  proof -
    have "shift \<in> set SHIFTS" using that(2) by (simp add: SHIFTS_def)
    then have "(strftime_ymd (year, month, d), shift) \<in> set (slot_keys year month [1..n])"
      using that(1) by (intro slot_keys_member) simp_all
    from slot_lookup[OF assms this, of g] obtain picks where
      m: "map_of (assignments (scheduler_after (generate_schedule self g year month)))
        (strftime_ymd (year, month, d), shift) = Some picks"
      and sf: "sampled_from (available_rows (staff_df self) shift) picks"
      by auto
    from sampled_from_positions[OF sf] m show ?thesis by blast
  qed
  from len entry slot show ?thesis by blast
qed

theorem generate_schedule_picks_without_replacement_witness:
  "(1::int) \<le> 2024 \<and> (2024::int) \<le> 9999 \<and> monthrange_ndays 2024 2 = Inr 29 \<and>
   str_accessor (map Availability (staff_df (Scheduler_init
        [\<lparr>Name = ''Alice'', Role = ''Full EMT'', Availability = Some ''AM'', Paid = True\<rparr>,
         \<lparr>Name = ''Bob'', Role = ''Observer'', Availability = Some ''AM,PM'', Paid = False\<rparr>,
         \<lparr>Name = ''Carol'', Role = ''Observer'', Availability = Some ''PM'', Paid = False\<rparr>]
        240 None))) = Inr () \<and>
   (\<exists>picks. map_of (assignments (scheduler_after (generate_schedule
     (Scheduler_init
        [\<lparr>Name = ''Alice'', Role = ''Full EMT'', Availability = Some ''AM'', Paid = True\<rparr>,
         \<lparr>Name = ''Bob'', Role = ''Observer'', Availability = Some ''AM,PM'', Paid = False\<rparr>,
         \<lparr>Name = ''Carol'', Role = ''Observer'', Availability = Some ''PM'', Paid = False\<rparr>]
        240 None) (\<lambda>i. 2 * i + 1) 2024 2))) (''2024-02-01'', ''PM'') = Some picks \<and>
     distinct (map fst picks) \<and> distinct picks)"
proof -
  define df where "df =
        [\<lparr>Name = ''Alice'', Role = ''Full EMT'', Availability = Some ''AM'', Paid = True\<rparr>,
         \<lparr>Name = ''Bob'', Role = ''Observer'', Availability = Some ''AM,PM'', Paid = False\<rparr>,
         \<lparr>Name = ''Carol'', Role = ''Observer'', Availability = Some ''PM'', Paid = False\<rparr>]"
  note h = monthrange_ndays_2024_02
  have y: "(1::int) \<le> 2024" "(2024::int) \<le> 9999" by simp_all
  have a: "str_accessor (map Availability (staff_df (Scheduler_init df 240 None))) = Inr ()"
    by (simp add: Scheduler_init_def str_accessor_def df_def)
  have nm: "distinct (map Name (staff_df (Scheduler_init df 240 None)))"
    by (simp add: Scheduler_init_def df_def)
  note t = generate_schedule_picks_without_replacement[OF y h a, of "\<lambda>i. 2 * i + 1"]
  have "\<forall>d \<in> {1..29::int}. \<forall>shift \<in> set [''AM'', ''Midday'', ''PM'']. \<exists>picks.
          map_of (assignments (scheduler_after
              (generate_schedule (Scheduler_init df 240 None) (\<lambda>i. 2 * i + 1) 2024 2)))
            (strftime_ymd (2024, 2, d), shift) = Some picks \<and>
          distinct (map fst picks) \<and> distinct picks"
    using t nm by simp blast
  then have "\<exists>picks.
          map_of (assignments (scheduler_after
              (generate_schedule (Scheduler_init df 240 None) (\<lambda>i. 2 * i + 1) 2024 2)))
            (strftime_ymd (2024, 2, 1), ''PM'') = Some picks \<and>
          distinct (map fst picks) \<and> distinct picks"
    by simp
  then have "\<exists>picks.
          map_of (assignments (scheduler_after
              (generate_schedule (Scheduler_init df 240 None) (\<lambda>i. 2 * i + 1) 2024 2)))
            (''2024-02-01'', ''PM'') = Some picks \<and>
          distinct (map fst picks) \<and> distinct picks"
    unfolding strftime_ymd_2024_02_01 .
  with h a show ?thesis unfolding df_def by simp
qed

subsection \<open>The empty roster\<close>

lemma available_rows_Nil: "available_rows [] shift = []"
  by (simp add: available_rows_def getitem_mask_def)

lemma sampled_from_Nil_iff: "sampled_from [] picks \<longleftrightarrow> picks = []"
  by (auto simp: sampled_from_def)

lemma slot_violations_Nil:
  "slot_violations k [] = map (missing_role (fst k) (snd k)) ROLES_NEEDED"
  by (simp add: slot_violations_def roles_present_def)

lemma map2_all_Nil:
  assumes "length ks = length ps" "\<forall>p \<in> set ps. p = []"
  shows "map2 slot_violations ks ps = map (\<lambda>k. map (missing_role (fst k) (snd k)) ROLES_NEEDED) ks"
  using assms by (induction ks ps rule: list_induct2) (simp_all add: slot_violations_Nil)

lemma length_concat_roles:
  "length (concat (map (\<lambda>k. map (missing_role (fst k) (snd k)) ROLES_NEEDED) ks)) = length ks * 3"
  by (induction ks) (simp_all add: ROLES_NEEDED_def)

text \<open>
  Claim C9. With an empty roster and a valid year and month, \<open>generate_schedule\<close> returns
  normally: there are \<open>n * 3\<close> assignments, the picks of each are empty, and the
  violations are, slot after slot, the messages of the three needed roles, \<open>n * 3 * 3\<close>
  of them.
\<close>

theorem generate_schedule_empty_roster:
  assumes "1 \<le> year" "year \<le> 9999" "monthrange_ndays year month = Inr n"
    and "staff_df self = []"
  shows "outcome (generate_schedule self g year month) = Inr () \<and>
    length (assignments (scheduler_after (generate_schedule self g year month))) = nat n * 3 \<and>
    (\<forall>entry \<in> set (assignments (scheduler_after (generate_schedule self g year month))).
       snd entry = []) \<and>
    violations (scheduler_after (generate_schedule self g year month)) =
      concat (map (\<lambda>k. map (missing_role (fst k) (snd k)) ROLES_NEEDED)
        (map fst (assignments (scheduler_after (generate_schedule self g year month))))) \<and>
    length (violations (scheduler_after (generate_schedule self g year month))) = nat n * 3 * 3"
proof -
  have ok: "str_accessor (map Availability (staff_df self)) = Inr ()"
    using assms(4) by (simp add: str_accessor_def)
  from generate_schedule_shape[OF assms(1-3) ok, of g] obtain ps where
    o: "outcome (generate_schedule self g year month) = Inr ()"
    and l: "length ps = length (slot_keys year month [1..n])"
    and a: "assignments (scheduler_after (generate_schedule self g year month)) =
              zip (slot_keys year month [1..n]) ps"
    and v: "violations (scheduler_after (generate_schedule self g year month)) =
        concat (map2 slot_violations (slot_keys year month [1..n]) ps)"
    and p: "list_all2 (\<lambda>k p. sampled_from (available_rows (staff_df self) (snd k)) p)
        (slot_keys year month [1..n]) ps"
    by blast
  have keys: "map fst (assignments (scheduler_after (generate_schedule self g year month))) =
      slot_keys year month [1..n]"
    unfolding a using l by simp
  have len: "length (assignments (scheduler_after (generate_schedule self g year month))) = nat n * 3"
    unfolding a using l slot_keys_month_length[OF assms(3)] by simp
  have empty: "\<forall>p \<in> set ps. p = []"
  proof
    fix q assume "q \<in> set ps"
    then obtain i where i: "i < length ps" "ps ! i = q" by (auto simp: in_set_conv_nth)
    have "sampled_from (available_rows (staff_df self) (snd (slot_keys year month [1..n] ! i))) (ps ! i)"
      using p i(1) by (rule list_all2_nthD2)
    then show "q = []"
      using i(2) by (simp add: assms(4) available_rows_Nil sampled_from_Nil_iff)
  qed
  have picks: "\<forall>entry \<in> set (assignments (scheduler_after (generate_schedule self g year month))).
       snd entry = []"
    unfolding a using empty by (auto dest: set_zip_rightD)
  have viol: "violations (scheduler_after (generate_schedule self g year month)) =
      concat (map (\<lambda>k. map (missing_role (fst k) (snd k)) ROLES_NEEDED)
        (map fst (assignments (scheduler_after (generate_schedule self g year month)))))"
    unfolding keys v using map2_all_Nil[OF l[symmetric] empty] by simp
  have "length (violations (scheduler_after (generate_schedule self g year month))) = nat n * 3 * 3"
    unfolding viol keys length_concat_roles using slot_keys_month_length[OF assms(3)] by simp
  with o len picks viol show ?thesis by blast
qed

theorem generate_schedule_empty_roster_witness:
  "(1::int) \<le> 2023 \<and> (2023::int) \<le> 9999 \<and> monthrange_ndays 2023 2 = Inr 28 \<and>
   staff_df (Scheduler_init [] 240 None) = [] \<and>
   outcome (generate_schedule (Scheduler_init [] 240 None) (\<lambda>i. 0) 2023 2) = Inr () \<and>
   length (violations (scheduler_after
     (generate_schedule (Scheduler_init [] 240 None) (\<lambda>i. 0) 2023 2))) = 252"
proof -
  have h: "monthrange_ndays 2023 2 = Inr 28"
    by (simp add: monthrange_ndays_def mdays_def isleap_def)
  have y: "(1::int) \<le> 2023" "(2023::int) \<le> 9999" by simp_all
  have e: "staff_df (Scheduler_init [] 240 None) = []" by (simp add: Scheduler_init_def)
  note r = generate_schedule_empty_roster[OF y h e, of "\<lambda>i. 0"]
  have o: "outcome (generate_schedule (Scheduler_init [] 240 None) (\<lambda>i. 0) 2023 2) = Inr ()"
    using r by (rule conjunct1)
  have "length (violations (scheduler_after
     (generate_schedule (Scheduler_init [] 240 None) (\<lambda>i. 0) 2023 2))) = nat 28 * 3 * 3"
    using r[THEN conjunct2, THEN conjunct2, THEN conjunct2, THEN conjunct2] .
  with o h e show ?thesis by simp
qed

subsection \<open>Calls that raise, and repeated calls\<close>

lemma generate_schedule_bad_month:
  assumes "month < 1 \<or> 12 < month"
  shows "generate_schedule s g year month =
           (Inl (IllegalMonthError month), s\<lparr>assignments := [], violations := []\<rparr>, g)"
  using assms by (simp add: generate_schedule_def monthrange_ndays_def)

lemma generate_schedule_bad_year:
  assumes "year < 1 \<or> 9999 < year" "monthrange_ndays year month = Inr n"
  shows "generate_schedule s g year month =
           (Inl (if year < - 2147483648 \<or> 2147483647 < year then OverflowError else ValueError),
            s\<lparr>assignments := [], violations := []\<rparr>, g)"
proof -
  have "1 \<le> n" using monthrange_ndays_Inr[OF assms(2)] by simp
  then have u: "[1..n] = 1 # [2..n]" by (simp add: upto_rec1)
  have d: "date year month 1 =
      Inl (if year < - 2147483648 \<or> 2147483647 < year then OverflowError else ValueError)"
    using assms(1) by (simp add: date_def)
  show ?thesis using assms(2) by (simp add: generate_schedule_def u d)
qed

lemma generate_schedule_no_accessor:
  assumes "1 \<le> year" "year \<le> 9999" "monthrange_ndays year month = Inr n"
    and "str_accessor (map Availability (staff_df s)) = Inl e"
  shows "generate_schedule s g year month =
           (Inl e, s\<lparr>assignments := [], violations := []\<rparr>, g)"
proof -
  have n: "1 \<le> n" using monthrange_ndays_Inr[OF assms(3)] by simp
  then have u: "[1..n] = 1 # [2..n]" by (simp add: upto_rec1)
  have d: "date year month 1 = Inr (year, month, 1)"
    using date_ok[OF assms(1-3), of 1] n by simp
  have b: "shift_body day shift (s\<lparr>assignments := [], violations := []\<rparr>, g) =
      (Inl e, s\<lparr>assignments := [], violations := []\<rparr>, g)" for day shift
    using assms(4) by (simp add: shift_body_def)
  have l: "shifts_loop day SHIFTS (s\<lparr>assignments := [], violations := []\<rparr>, g) =
      (Inl e, s\<lparr>assignments := [], violations := []\<rparr>, g)" for day
    by (simp add: SHIFTS_def b)
  show ?thesis
    using assms(3) by (simp add: generate_schedule_def u d l del: strftime_ymd.simps)
qed

lemma str_accessor_cases:
  "str_accessor col = Inr () \<or> str_accessor col = Inl AttributeError"
  by (simp add: str_accessor_def)

lemma generate_schedule_keys:
  "map fst (assignments (scheduler_after (generate_schedule s g y m))) =
     (case monthrange_ndays y m of
        Inl e \<Rightarrow> []
      | Inr n \<Rightarrow>
          if y < 1 \<or> 9999 < y then []
          else if str_accessor (map Availability (staff_df s)) = Inr () then slot_keys y m [1..n]
          else [])"
proof (cases "monthrange_ndays y m")
  case (Inl e)
  then have "m < 1 \<or> 12 < m" by (auto simp: monthrange_ndays_def split: if_splits)
  from generate_schedule_bad_month[OF this] Inl show ?thesis
    by (simp add: scheduler_after_def)
next
  case (Inr n)
  show ?thesis
  proof (cases "y < 1 \<or> 9999 < y")
    case True
    from generate_schedule_bad_year[OF True Inr] Inr True show ?thesis
      by (simp add: scheduler_after_def)
  next
    case False
    then have y: "1 \<le> y" "y \<le> 9999" by simp_all
    show ?thesis
    proof (cases "str_accessor (map Availability (staff_df s)) = Inr ()")
      case True
      from generate_schedule_keys_valid[OF y Inr True] Inr False True show ?thesis by simp
    next
      case no: False
      then have "str_accessor (map Availability (staff_df s)) = Inl AttributeError"
        using str_accessor_cases by blast
      from generate_schedule_no_accessor[OF y Inr this] Inr False no show ?thesis
        by (simp add: scheduler_after_def)
    qed
  qed
qed

lemma generate_schedule_staff_df:
  "staff_df (scheduler_after (generate_schedule s g y m)) = staff_df s"
proof (cases "monthrange_ndays y m")
  case (Inl e)
  then have "m < 1 \<or> 12 < m" by (auto simp: monthrange_ndays_def split: if_splits)
  from generate_schedule_bad_month[OF this] show ?thesis
    by (simp add: scheduler_after_def)
next
  case (Inr n)
  show ?thesis
  proof (cases "y < 1 \<or> 9999 < y")
    case True
    from generate_schedule_bad_year[OF True Inr] show ?thesis
      by (simp add: scheduler_after_def)
  next
    case False
    then have y: "1 \<le> y" "y \<le> 9999" by simp_all
    show ?thesis
    proof (cases "str_accessor (map Availability (staff_df s)) = Inr ()")
      case True
      from generate_schedule_shape[OF y Inr True, of g] show ?thesis by blast
    next
      case no: False
      then have "str_accessor (map Availability (staff_df s)) = Inl AttributeError"
        using str_accessor_cases by blast
      from generate_schedule_no_accessor[OF y Inr this] show ?thesis
        by (simp add: scheduler_after_def)
    qed
  qed
qed

lemma generate_schedule_resets:
  "generate_schedule (s\<lparr>assignments := a, violations := v\<rparr>) g y m = generate_schedule s g y m"
  by (simp add: generate_schedule_def)

text \<open>
  Claim C5, as the code has it. For every month outside 1..12 \<open>generate_schedule\<close> raises
  \<open>IllegalMonthError\<close> for the month, and no slot has been written; but the two
  containers were cleared before the month was checked, so after the failing call the
  assignments and the violations are empty, whatever they were before. A scheduler whose
  containers were empty (a first call) is left as it was.
\<close>

theorem generate_schedule_illegal_month:
  assumes "month < 1 \<or> 12 < month"
  shows "outcome (generate_schedule self g year month) = Inl (IllegalMonthError month) \<and>
    scheduler_after (generate_schedule self g year month) =
      self\<lparr>assignments := [], violations := []\<rparr> \<and>
    assignments (scheduler_after (generate_schedule self g year month)) = [] \<and>
    violations (scheduler_after (generate_schedule self g year month)) = [] \<and>
    (assignments self = [] \<and> violations self = [] \<longrightarrow>
       scheduler_after (generate_schedule self g year month) = self)"
  unfolding generate_schedule_bad_month[OF assms]
  by (simp add: outcome_def scheduler_after_def)

theorem generate_schedule_illegal_month_witness:
  "((13::int) < 1 \<or> (12::int) < 13) \<and>
   outcome (generate_schedule
     (Scheduler_init [\<lparr>Name = ''Alice'', Role = ''Full EMT'', Availability = Some ''AM'', Paid = True\<rparr>]
        240 None) (\<lambda>i. i) 2024 13) = Inl (IllegalMonthError 13) \<and>
   scheduler_after (generate_schedule
     (Scheduler_init [\<lparr>Name = ''Alice'', Role = ''Full EMT'', Availability = Some ''AM'', Paid = True\<rparr>]
        240 None) (\<lambda>i. i) 2024 13) =
     Scheduler_init [\<lparr>Name = ''Alice'', Role = ''Full EMT'', Availability = Some ''AM'', Paid = True\<rparr>]
        240 None"
proof -
  have h: "(13::int) < 1 \<or> (12::int) < 13" by simp
  from generate_schedule_illegal_month[OF h, of
     "Scheduler_init [\<lparr>Name = ''Alice'', Role = ''Full EMT'', Availability = Some ''AM'', Paid = True\<rparr>]
        240 None" "\<lambda>i. i" 2024]
  show ?thesis by (simp add: Scheduler_init_def)
qed

text \<open>
  The claim as the specification states it fails: a scheduler that holds the 93
  assignments of January 2024 and is then asked for month 13 raises, and its assignments
  are no longer those it had.
\<close>

theorem generate_schedule_illegal_month_discards:
  "outcome (generate_schedule
      (scheduler_after (generate_schedule (Scheduler_init [] 240 None) (\<lambda>i. i) 2024 1))
      (\<lambda>i. i) 2024 13) = Inl (IllegalMonthError 13) \<and>
   assignments (scheduler_after (generate_schedule
      (scheduler_after (generate_schedule (Scheduler_init [] 240 None) (\<lambda>i. i) 2024 1))
      (\<lambda>i. i) 2024 13)) \<noteq>
   assignments (scheduler_after (generate_schedule (Scheduler_init [] 240 None) (\<lambda>i. i) 2024 1))"
proof -
  have h: "monthrange_ndays 2024 1 = Inr 31"
    by (simp add: monthrange_ndays_def mdays_def)
  have "length (assignments (scheduler_after
          (generate_schedule (Scheduler_init [] 240 None) (\<lambda>i. i) 2024 1))) = nat 31 * 3"
    by (rule generate_schedule_length[OF _ _ h])
      (simp_all add: Scheduler_init_def str_accessor_def)
  then have ne: "assignments (scheduler_after
          (generate_schedule (Scheduler_init [] 240 None) (\<lambda>i. i) 2024 1)) \<noteq> []"
    by auto
  have b: "(13::int) < 1 \<or> (12::int) < 13" by simp
  show ?thesis
    unfolding generate_schedule_bad_month[OF b] using ne
    by (simp add: outcome_def scheduler_after_def[of "(Inl _, _)"])
qed

text \<open>
  Claim C6. Two calls in a row on the same scheduler for the same year and month, each
  with any random source, leave the same number of assignments and the same list of slot
  keys; the second call gives what it would give on the scheduler with both containers
  emptied, so nothing is carried over; for a valid year and month the second call leaves
  \<open>n * 3\<close> assignments again (none when the Availability column has no string accessor:
  then both calls raise at the first slot).
\<close>

theorem generate_schedule_twice:
  "length (assignments (scheduler_after (generate_schedule
       (scheduler_after (generate_schedule self g year month)) g2 year month))) =
     length (assignments (scheduler_after (generate_schedule self g year month))) \<and>
   map fst (assignments (scheduler_after (generate_schedule
       (scheduler_after (generate_schedule self g year month)) g2 year month))) =
     map fst (assignments (scheduler_after (generate_schedule self g year month))) \<and>
   generate_schedule (scheduler_after (generate_schedule self g year month)) g2 year month =
     generate_schedule
       ((scheduler_after (generate_schedule self g year month))\<lparr>assignments := [], violations := []\<rparr>)
       g2 year month \<and>
   (1 \<le> year \<and> year \<le> 9999 \<and> monthrange_ndays year month = Inr n \<longrightarrow>
      length (assignments (scheduler_after (generate_schedule
       (scheduler_after (generate_schedule self g year month)) g2 year month))) =
      (if str_accessor (map Availability (staff_df self)) = Inr () then nat n * 3 else 0))"
proof -
  define s1 where "s1 = scheduler_after (generate_schedule self g year month)"
  have sd: "staff_df s1 = staff_df self"
    unfolding s1_def by (rule generate_schedule_staff_df)
  have k: "map fst (assignments (scheduler_after (generate_schedule s1 g2 year month))) =
     map fst (assignments (scheduler_after (generate_schedule self g year month)))"
    by (simp only: generate_schedule_keys sd)
  have l: "length (assignments (scheduler_after (generate_schedule s1 g2 year month))) =
     length (assignments (scheduler_after (generate_schedule self g year month)))"
    using arg_cong[OF k, of length] by simp
  have r: "generate_schedule s1 g2 year month =
     generate_schedule (s1\<lparr>assignments := [], violations := []\<rparr>) g2 year month"
    by (simp only: generate_schedule_resets)
  have v: "1 \<le> year \<and> year \<le> 9999 \<and> monthrange_ndays year month = Inr n \<longrightarrow>
      length (assignments (scheduler_after (generate_schedule s1 g2 year month))) =
      (if str_accessor (map Availability (staff_df self)) = Inr () then nat n * 3 else 0)"
  proof
    assume a: "1 \<le> year \<and> year \<le> 9999 \<and> monthrange_ndays year month = Inr n"
    then have y: "1 \<le> year" "year \<le> 9999" and h: "monthrange_ndays year month = Inr n"
      by simp_all
    have "length (map fst (assignments (scheduler_after (generate_schedule s1 g2 year month)))) =
      (if str_accessor (map Availability (staff_df self)) = Inr () then nat n * 3 else 0)"
      unfolding generate_schedule_keys sd using y h slot_keys_month_length[OF h] by simp
    then show "length (assignments (scheduler_after (generate_schedule s1 g2 year month))) =
      (if str_accessor (map Availability (staff_df self)) = Inr () then nat n * 3 else 0)"
      by simp
  qed
  from l k r v show ?thesis unfolding s1_def by blast
qed

theorem generate_schedule_twice_witness:
  "(1::int) \<le> 2024 \<and> (2024::int) \<le> 9999 \<and> monthrange_ndays 2024 2 = Inr 29 \<and>
   length (assignments (scheduler_after (generate_schedule
       (scheduler_after (generate_schedule
          (Scheduler_init [\<lparr>Name = ''Alice'', Role = ''Full EMT'', Availability = Some ''AM'', Paid = True\<rparr>]
             240 None) (\<lambda>i. i) 2024 2))
       (\<lambda>i. i + 1) 2024 2))) = 87"
proof -
  have h: "monthrange_ndays 2024 2 = Inr 29"
    by (simp add: monthrange_ndays_def mdays_def isleap_def)
  have a: "str_accessor (map Availability (staff_df (Scheduler_init
      [\<lparr>Name = ''Alice'', Role = ''Full EMT'', Availability = Some ''AM'', Paid = True\<rparr>]
      240 None))) = Inr ()"
    by (simp add: Scheduler_init_def str_accessor_def)
  note t = generate_schedule_twice[of
      "Scheduler_init [\<lparr>Name = ''Alice'', Role = ''Full EMT'', Availability = Some ''AM'', Paid = True\<rparr>]
             240 None" "\<lambda>i. i" 2024 2 "\<lambda>i. i + 1" 29]
  have "length (assignments (scheduler_after (generate_schedule
       (scheduler_after (generate_schedule
          (Scheduler_init [\<lparr>Name = ''Alice'', Role = ''Full EMT'', Availability = Some ''AM'', Paid = True\<rparr>]
             240 None) (\<lambda>i. i) 2024 2))
       (\<lambda>i. i + 1) 2024 2))) = nat 29 * 3"
    using t[THEN conjunct2, THEN conjunct2, THEN conjunct2] h a by simp
  with h show ?thesis by simp
qed

subsection \<open>Missing Availability cells\<close>

lemma available_rows_member:
  "row \<in> set (available_rows df shift) \<longleftrightarrow>
     row \<in> set df \<and> (\<exists>a. Availability row = Some a \<and> str_search a shift)"
  by (cases "Availability row") (auto simp: available_rows_filter str_contains_def)

text \<open>
  What \<^verbatim>\<open>na=False\<close> gives when the column has the string accessor: the call returns
  normally, a row whose cell is missing is in the available rows of no shift, and every
  pick of every slot is the pick of a roster row whose cell is a string containing the
  shift of the slot.
\<close>

lemma missing_availability_never_picked:
  assumes "1 \<le> year" "year \<le> 9999" "monthrange_ndays year month = Inr n"
    and "str_accessor (map Availability (staff_df self)) = Inr ()"
  shows "outcome (generate_schedule self g year month) = Inr () \<and>
    (\<forall>row \<in> set (staff_df self). Availability row = None \<longrightarrow>
       (\<forall>shift. row \<notin> set (available_rows (staff_df self) shift))) \<and>
    (\<forall>entry \<in> set (assignments (scheduler_after (generate_schedule self g year month))).
       \<forall>p \<in> set (snd entry). \<exists>row \<in> set (staff_df self).
         p = pick_of row \<and> (\<exists>a. Availability row = Some a \<and> str_search a (snd (fst entry))))"
proof -
  have o: "outcome (generate_schedule self g year month) = Inr ()"
    using generate_schedule_shape[OF assms, of g] by blast
  have none: "\<forall>row \<in> set (staff_df self). Availability row = None \<longrightarrow>
       (\<forall>shift. row \<notin> set (available_rows (staff_df self) shift))"
    by (simp add: available_rows_member)
  have picked: "\<exists>row \<in> set (staff_df self).
         p = pick_of row \<and> (\<exists>a. Availability row = Some a \<and> str_search a (snd (fst entry)))"
    if e: "entry \<in> set (assignments (scheduler_after (generate_schedule self g year month)))"
      and p: "p \<in> set (snd entry)" for entry p
  proof -
    have "(fst entry, snd entry) \<in> set (assignments (scheduler_after (generate_schedule self g year month)))"
      using e by simp
    from slot_entry[OF assms this]
    have "sampled_from (available_rows (staff_df self) (snd (fst entry))) (snd entry)" by simp
    then obtain locs where l: "set locs \<subseteq> {..<length (available_rows (staff_df self) (snd (fst entry)))}"
      "snd entry = map (\<lambda>i. pick_of (available_rows (staff_df self) (snd (fst entry)) ! i)) locs"
      unfolding sampled_from_def by blast
    from p l(2) obtain i where i: "i \<in> set locs"
      "p = pick_of (available_rows (staff_df self) (snd (fst entry)) ! i)" by auto
    have "available_rows (staff_df self) (snd (fst entry)) ! i
            \<in> set (available_rows (staff_df self) (snd (fst entry)))"
      using i(1) l(1) by (intro nth_mem) auto
    then show ?thesis using i(2) by (auto simp: available_rows_member)
  qed
  from o none picked show ?thesis by blast
qed

text \<open>
  Claim C10 fails on the code. The claim is that a row whose Availability cell is missing
  never makes \<open>generate_schedule\<close> raise, and line 43 passes \<^verbatim>\<open>na=False\<close> to that end.
  But on a roster in which every Availability cell is missing the column holds no
  string, the \<^verbatim>\<open>.str\<close> accessor of line 43 raises \<open>AttributeError\<close> at the first slot,
  and the call leaves no assignment: here for the roster of one such row, February 2024.
\<close>

theorem generate_schedule_all_missing_raises:
  "outcome (generate_schedule
      (Scheduler_init [\<lparr>Name = ''Bob'', Role = ''Observer'', Availability = None, Paid = False\<rparr>]
         240 None) (\<lambda>i. i) 2024 2) = Inl AttributeError \<and>
   assignments (scheduler_after (generate_schedule
      (Scheduler_init [\<lparr>Name = ''Bob'', Role = ''Observer'', Availability = None, Paid = False\<rparr>]
         240 None) (\<lambda>i. i) 2024 2)) = []"
proof -
  have a: "str_accessor (map Availability (staff_df (Scheduler_init
      [\<lparr>Name = ''Bob'', Role = ''Observer'', Availability = None, Paid = False\<rparr>] 240 None))) =
      Inl AttributeError"
    by (simp add: Scheduler_init_def str_accessor_def)
  have y: "(1::int) \<le> 2024" "(2024::int) \<le> 9999" by simp_all
  show ?thesis
    unfolding generate_schedule_no_accessor[OF y monthrange_ndays_2024_02 a]
    by (simp add: outcome_def scheduler_after_def)
qed

subsection \<open>The two limits are not read\<close>

lemma shift_body_limits:
  "shift_body day shift (s\<lparr>max_week_paid_hours := mw, max_hours_per_person := mh\<rparr>, g) =
     (case shift_body day shift (s, g) of
        (r, s1, g1) \<Rightarrow> (r, s1\<lparr>max_week_paid_hours := mw, max_hours_per_person := mh\<rparr>, g1))"
  by (simp add: shift_body_def Let_def split: sum.splits prod.splits)

lemma shifts_loop_limits:
  "shifts_loop day shs (s\<lparr>max_week_paid_hours := mw, max_hours_per_person := mh\<rparr>, g) =
     (case shifts_loop day shs (s, g) of
        (r, s1, g1) \<Rightarrow> (r, s1\<lparr>max_week_paid_hours := mw, max_hours_per_person := mh\<rparr>, g1))"
proof (induction shs arbitrary: s g)
  case Nil
  show ?case by simp
next
  case (Cons sh shs)
  obtain r s1 g1 where b: "shift_body day sh (s, g) = (r, s1, g1)"
    by (cases "shift_body day sh (s, g)") auto
  show ?case
  proof (cases r)
    case (Inl e)
    then show ?thesis using b by (simp add: shift_body_limits)
  next
    case (Inr u)
    then show ?thesis using b Cons.IH[of s1 g1] by (simp add: shift_body_limits)
  qed
qed

lemma days_loop_limits:
  "days_loop y m ds (s\<lparr>max_week_paid_hours := mw, max_hours_per_person := mh\<rparr>, g) =
     (case days_loop y m ds (s, g) of
        (r, s1, g1) \<Rightarrow> (r, s1\<lparr>max_week_paid_hours := mw, max_hours_per_person := mh\<rparr>, g1))"
proof (induction ds arbitrary: s g)
  case Nil
  show ?case by simp
next
  case (Cons d ds)
  show ?case
  proof (cases "date y m d")
    case (Inl e)
    then show ?thesis by simp
  next
    case (Inr dt)
    obtain r s1 g1 where b: "shifts_loop (strftime_ymd dt) SHIFTS (s, g) = (r, s1, g1)"
      by (cases "shifts_loop (strftime_ymd dt) SHIFTS (s, g)") auto
    show ?thesis
    proof (cases r)
      case (Inl e)
      then show ?thesis using Inr b by (simp add: shifts_loop_limits)
    next
      case r: (Inr u)
      then show ?thesis using Inr b Cons.IH[of s1 g1] by (simp add: shifts_loop_limits)
    qed
  qed
qed

lemma generate_schedule_limits:
  "generate_schedule (s\<lparr>max_week_paid_hours := mw, max_hours_per_person := mh\<rparr>) g y m =
     (case generate_schedule s g y m of
        (r, s1, g1) \<Rightarrow> (r, s1\<lparr>max_week_paid_hours := mw, max_hours_per_person := mh\<rparr>, g1))"
proof (cases "monthrange_ndays y m")
  case (Inl e)
  then show ?thesis by (simp add: generate_schedule_def)
next
  case (Inr n)
  have eq: "s\<lparr>max_week_paid_hours := mw, max_hours_per_person := mh,
              assignments := [], violations := []\<rparr> =
            s\<lparr>assignments := [], violations := []\<rparr>\<lparr>max_week_paid_hours := mw,
              max_hours_per_person := mh\<rparr>"
    by simp
  have "generate_schedule (s\<lparr>max_week_paid_hours := mw, max_hours_per_person := mh\<rparr>) g y m =
      days_loop y m [1..n]
        (s\<lparr>assignments := [], violations := []\<rparr>\<lparr>max_week_paid_hours := mw,
              max_hours_per_person := mh\<rparr>, g)"
    using Inr by (simp only: generate_schedule_def Let_def sum.case eq[symmetric] scheduler.simps)
  also have "\<dots> =
     (case days_loop y m [1..n] (s\<lparr>assignments := [], violations := []\<rparr>, g) of
        (r, s1, g1) \<Rightarrow> (r, s1\<lparr>max_week_paid_hours := mw, max_hours_per_person := mh\<rparr>, g1))"
    by (rule days_loop_limits)
  also have "\<dots> = (case generate_schedule s g y m of
        (r, s1, g1) \<Rightarrow> (r, s1\<lparr>max_week_paid_hours := mw, max_hours_per_person := mh\<rparr>, g1))"
    using Inr by (simp only: generate_schedule_def Let_def sum.case)
  finally show ?thesis .
qed

text \<open>
  Claim C8. The two limits given to the constructor are stored and never read: two
  schedulers built on the same roster with different limits, run with the same random
  source on the same year and month, have the same outcome, the same assignments and the
  same violations, and leave the same random source. The same holds when the limits of
  any scheduler are overwritten before the call.
\<close>

theorem generate_schedule_ignores_limits:
  "outcome (generate_schedule (Scheduler_init df mw mh) g year month) =
     outcome (generate_schedule (Scheduler_init df mw' mh') g year month) \<and>
   assignments (scheduler_after (generate_schedule (Scheduler_init df mw mh) g year month)) =
     assignments (scheduler_after (generate_schedule (Scheduler_init df mw' mh') g year month)) \<and>
   violations (scheduler_after (generate_schedule (Scheduler_init df mw mh) g year month)) =
     violations (scheduler_after (generate_schedule (Scheduler_init df mw' mh') g year month)) \<and>
   snd (snd (generate_schedule (Scheduler_init df mw mh) g year month)) =
     snd (snd (generate_schedule (Scheduler_init df mw' mh') g year month)) \<and>
   outcome (generate_schedule
       (self\<lparr>max_week_paid_hours := mw, max_hours_per_person := mh\<rparr>) g year month) =
     outcome (generate_schedule self g year month) \<and>
   assignments (scheduler_after (generate_schedule
       (self\<lparr>max_week_paid_hours := mw, max_hours_per_person := mh\<rparr>) g year month)) =
     assignments (scheduler_after (generate_schedule self g year month)) \<and>
   violations (scheduler_after (generate_schedule
       (self\<lparr>max_week_paid_hours := mw, max_hours_per_person := mh\<rparr>) g year month)) =
     violations (scheduler_after (generate_schedule self g year month))"
proof -
  obtain r s1 g1 where e: "generate_schedule (Scheduler_init df 0 None) g year month = (r, s1, g1)"
    by (cases "generate_schedule (Scheduler_init df 0 None) g year month") auto
  obtain r' s1' g1' where e': "generate_schedule self g year month = (r', s1', g1')"
    by (cases "generate_schedule self g year month") auto
  have a: "generate_schedule (Scheduler_init df a b) g year month =
      (r, s1\<lparr>max_week_paid_hours := a, max_hours_per_person := b\<rparr>, g1)" for a b
    using generate_schedule_limits[where s = "Scheduler_init df 0 None" and mw = a and mh = b
        and g = g and y = year and m = month] e
    by (simp add: Scheduler_init_def)
  have b: "generate_schedule
       (self\<lparr>max_week_paid_hours := mw, max_hours_per_person := mh\<rparr>) g year month =
      (r', s1'\<lparr>max_week_paid_hours := mw, max_hours_per_person := mh\<rparr>, g1')"
    using generate_schedule_limits[where s = self and mw = mw and mh = mh
        and g = g and y = year and m = month] e'
    by simp
  show ?thesis
    unfolding a b e' by (simp add: outcome_def scheduler_after_def)
qed

subsection \<open>The violation messages\<close>

lemma shift_role_inj:
  assumes "shift \<in> set SHIFTS" "shift' \<in> set SHIFTS"
    and "r \<in> set ROLES_NEEDED" "r' \<in> set ROLES_NEEDED"
    and "shift @ '': missing role '' @ r = shift' @ '': missing role '' @ r'"
  shows "shift = shift' \<and> r = r'"
proof -
  have "shift = shift'"
    using assms(1,2,5) by (auto simp: SHIFTS_def)
  with assms(5) show ?thesis by simp
qed

lemma missing_role_inj:
  assumes "length day = length day'"
    and "shift \<in> set SHIFTS" "shift' \<in> set SHIFTS"
    and "r \<in> set ROLES_NEEDED" "r' \<in> set ROLES_NEEDED"
    and "missing_role day shift r = missing_role day' shift' r'"
  shows "day = day' \<and> shift = shift' \<and> r = r'"
proof -
  have "day @ ('' '' @ shift @ '': missing role '' @ r) =
        day' @ ('' '' @ shift' @ '': missing role '' @ r')"
    using assms(6) by (simp add: missing_role_def)
  then have "day = day' \<and> '' '' @ shift @ '': missing role '' @ r =
      '' '' @ shift' @ '': missing role '' @ r'"
    using append_eq_append_conv[OF disjI1[OF assms(1)]] by blast
  then have "day = day'" and "shift @ '': missing role '' @ r = shift' @ '': missing role '' @ r'"
    by simp_all
  with shift_role_inj[OF assms(2-5)] show ?thesis by simp
qed

lemma strftime_ymd_length: "length (strftime_ymd (y, m, d)) = length (strftime_Y y) + 6"
  by (simp add: zfill2_def)

lemma slot_keys_wf:
  assumes "k \<in> set (slot_keys y m ds)"
  shows "length (fst k) = length (strftime_Y y) + 6 \<and> snd k \<in> set SHIFTS"
proof -
  obtain d where "fst k = strftime_ymd (y, m, d)" using slot_keys_fst[OF assms] by blast
  then show ?thesis using slot_keys_snd[OF assms] strftime_ymd_length by simp
qed

lemma distinct_ROLES_NEEDED: "distinct ROLES_NEEDED"
  by (simp add: ROLES_NEEDED_def)

lemma count_list_map_inj:
  assumes "inj f"
  shows "count_list (map f xs) (f x) = count_list xs x"
  using assms by (induction xs) (auto dest: injD)

lemma count_list_filter_distinct:
  assumes "distinct xs" "x \<in> set xs"
  shows "count_list (filter Q xs) x = (if Q x then 1 else 0)"
  using assms by (induction xs) (auto simp: count_list_0_iff)

lemma slot_violations_count_same:
  assumes "r \<in> set ROLES_NEEDED"
  shows "count_list (slot_violations k p) (missing_role (fst k) (snd k) r) =
           (if r \<in> roles_present p then 0 else 1)"
proof -
  have "inj (missing_role (fst k) (snd k))"
    by (rule injI) (simp add: missing_role_def)
  then have "count_list (slot_violations k p) (missing_role (fst k) (snd k) r) =
      count_list (filter (\<lambda>needed. needed \<notin> roles_present p) ROLES_NEEDED) r"
    unfolding slot_violations_def by (rule count_list_map_inj)
  also have "\<dots> = (if r \<notin> roles_present p then 1 else 0)"
    using distinct_ROLES_NEEDED assms by (rule count_list_filter_distinct)
  finally show ?thesis by simp
qed

lemma slot_violations_count_other:
  assumes "k \<noteq> k'" "length (fst k) = length (fst k')"
    and "snd k \<in> set SHIFTS" "snd k' \<in> set SHIFTS" "r \<in> set ROLES_NEEDED"
  shows "count_list (slot_violations k' p') (missing_role (fst k) (snd k) r) = 0"
proof -
  have "missing_role (fst k) (snd k) r \<notin> set (slot_violations k' p')"
  proof
    assume "missing_role (fst k) (snd k) r \<in> set (slot_violations k' p')"
    then obtain r' where r': "r' \<in> set ROLES_NEEDED"
      "missing_role (fst k) (snd k) r = missing_role (fst k') (snd k') r'"
      by (auto simp: slot_violations_def)
    from missing_role_inj[OF assms(2,3,4,5) r'] have "k = k'" by (simp add: prod_eq_iff)
    with assms(1) show False by simp
  qed
  then show ?thesis by (simp add: count_list_0_iff)
qed

lemma violations_count:
  assumes "distinct (map fst es)"
    and "\<forall>e \<in> set es. length (fst (fst e)) = N \<and> snd (fst e) \<in> set SHIFTS"
    and "e \<in> set es" "r \<in> set ROLES_NEEDED"
  shows "count_list (concat (map (\<lambda>e. slot_violations (fst e) (snd e)) es))
           (missing_role (fst (fst e)) (snd (fst e)) r) =
         (if r \<in> roles_present (snd e) then 0 else 1)"
  using assms(1,2,3)
proof (induction es)
  case Nil
  then show ?case by simp
next
  case (Cons e0 es)
  have fresh0: "fst e0 \<notin> fst ` set es" using Cons.prems(1) by simp
  have wf0: "length (fst (fst e0)) = N" "snd (fst e0) \<in> set SHIFTS" using Cons.prems(2) by simp_all
  have wfe: "length (fst (fst e)) = N" "snd (fst e) \<in> set SHIFTS"
    using Cons.prems(2,3) by auto
  show ?case
  proof (cases "e = e0")
    case True
    have "count_list (concat (map (\<lambda>e. slot_violations (fst e) (snd e)) es))
           (missing_role (fst (fst e)) (snd (fst e)) r) = 0"
    proof -
      have "missing_role (fst (fst e)) (snd (fst e)) r \<notin> set (slot_violations (fst e') (snd e'))"
        if e': "e' \<in> set es" for e'
      proof -
        have "fst e' \<in> fst ` set es" using e' by (rule imageI)
        then have "fst e \<noteq> fst e'" using fresh0 True by metis
        moreover have "length (fst (fst e')) = N" "snd (fst e') \<in> set SHIFTS"
          using Cons.prems(2) e' by simp_all
        ultimately have "count_list (slot_violations (fst e') (snd e'))
            (missing_role (fst (fst e)) (snd (fst e)) r) = 0"
          using wfe assms(4) by (intro slot_violations_count_other) simp_all
        then show ?thesis by (simp add: count_list_0_iff)
      qed
      then show ?thesis by (auto simp: count_list_0_iff)
    qed
    then show ?thesis
      using True slot_violations_count_same[OF assms(4), of "fst e0" "snd e0"] by simp
  next
    case False
    then have in_es: "e \<in> set es" using Cons.prems(3) by simp
    have "fst e \<in> fst ` set es" using in_es by (rule imageI)
    then have "fst e \<noteq> fst e0" using fresh0 by metis
    then have "count_list (slot_violations (fst e0) (snd e0))
            (missing_role (fst (fst e)) (snd (fst e)) r) = 0"
      using wfe wf0 assms(4) by (intro slot_violations_count_other) simp_all
    moreover have "count_list (concat (map (\<lambda>e. slot_violations (fst e) (snd e)) es))
           (missing_role (fst (fst e)) (snd (fst e)) r) =
         (if r \<in> roles_present (snd e) then 0 else 1)"
      using Cons.IH Cons.prems(1,2) in_es by simp
    ultimately show ?thesis by simp
  qed
qed


lemma roles_present_iff:
  "needed \<in> roles_present picks \<longleftrightarrow> (\<exists>nm pd. (nm, needed, pd) \<in> set picks)"
  by (force simp: roles_present_def)

lemma sampled_from_single:
  assumes "sampled_from [r] picks"
  shows "picks = [pick_of r]"
proof -
  from assms obtain locs where l: "set locs \<subseteq> {..<1}" "length locs = 1"
    "picks = map (\<lambda>i. pick_of ([r] ! i)) locs"
    unfolding sampled_from_def by auto
  from l(2) obtain x where x: "locs = [x]" by (cases locs) auto
  with l(1) have "x = 0" by simp
  with x l(3) show ?thesis by simp
qed

text \<open>
  Claim C2. After a call for a valid year and month, on a roster whose Availability
  column has the string accessor, the violations are, assignment after assignment in the
  order of the assignments, the messages
  \<^verbatim>\<open><date> <shift>: missing role <role>\<close> of the roles among Full EMT, Probationary EMT and
  Observer, in this order, that no pick of the slot carries. So for each of the
  \<open>n * 3\<close> slots and each of the three roles the message of the slot and the role occurs
  exactly once when no pick of the slot has the role, and not at all when one has. From
  the year 1000 on the assignments are in the order of the days 1 to \<open>n\<close>, each with AM,
  Midday, PM.
\<close>

theorem generate_schedule_violations:
  assumes "1 \<le> year" "year \<le> 9999" "monthrange_ndays year month = Inr n"
    and "str_accessor (map Availability (staff_df self)) = Inr ()"
  shows "violations (scheduler_after (generate_schedule self g year month)) =
      concat (map (\<lambda>entry.
          map (\<lambda>needed. fst (fst entry) @ '' '' @ snd (fst entry) @ '': missing role '' @ needed)
            (filter (\<lambda>needed. \<not> (\<exists>nm pd. (nm, needed, pd) \<in> set (snd entry)))
               [''Full EMT'', ''Probationary EMT'', ''Observer'']))
        (assignments (scheduler_after (generate_schedule self g year month)))) \<and>
    (\<forall>entry \<in> set (assignments (scheduler_after (generate_schedule self g year month))).
       \<forall>needed \<in> set [''Full EMT'', ''Probationary EMT'', ''Observer''].
         count_list (violations (scheduler_after (generate_schedule self g year month)))
           (fst (fst entry) @ '' '' @ snd (fst entry) @ '': missing role '' @ needed) =
         (if \<exists>nm pd. (nm, needed, pd) \<in> set (snd entry) then 0 else 1)) \<and>
    length (assignments (scheduler_after (generate_schedule self g year month))) = nat n * 3 \<and>
    (1000 \<le> year \<longrightarrow>
       map fst (assignments (scheduler_after (generate_schedule self g year month))) =
         concat (map (\<lambda>d. map (\<lambda>shift. (strftime_ymd (year, month, d), shift))
                       [''AM'', ''Midday'', ''PM'']) [1..n]))"
proof -
  define s1 where "s1 = scheduler_after (generate_schedule self g year month)"
  from generate_schedule_shape[OF assms, of g] obtain ps where
    l: "length ps = length (slot_keys year month [1..n])"
    and a: "assignments s1 = zip (slot_keys year month [1..n]) ps"
    and v: "violations s1 = concat (map2 slot_violations (slot_keys year month [1..n]) ps)"
    unfolding s1_def by blast
  have keys: "map fst (assignments s1) = slot_keys year month [1..n]"
    unfolding a using l by simp
  have keys': "map fst (assignments s1) =
         concat (map (\<lambda>d. map (\<lambda>shift. (strftime_ymd (year, month, d), shift))
                       [''AM'', ''Midday'', ''PM'']) [1..n])"
    unfolding keys slot_keys_def SHIFTS_def ..
  have len: "length (assignments s1) = nat n * 3"
    unfolding s1_def by (rule generate_schedule_length[OF assms])
  have v1: "violations s1 = concat (map (\<lambda>e. slot_violations (fst e) (snd e)) (assignments s1))"
    unfolding v a by (simp add: case_prod_unfold)
  have v2: "violations s1 =
      concat (map (\<lambda>entry.
          map (\<lambda>needed. fst (fst entry) @ '' '' @ snd (fst entry) @ '': missing role '' @ needed)
            (filter (\<lambda>needed. \<not> (\<exists>nm pd. (nm, needed, pd) \<in> set (snd entry)))
               [''Full EMT'', ''Probationary EMT'', ''Observer'']))
        (assignments s1))"
    unfolding v1 slot_violations_def missing_role_def roles_present_iff ROLES_NEEDED_def ..
  have d: "distinct (map fst (assignments s1))"
    unfolding keys by (rule slot_keys_month_distinct[OF assms(3)])
  have wf: "\<forall>e \<in> set (assignments s1).
      length (fst (fst e)) = length (strftime_Y year) + 6 \<and> snd (fst e) \<in> set SHIFTS"
  proof
    fix e assume "e \<in> set (assignments s1)"
    then have "fst e \<in> set (map fst (assignments s1))" by simp
    then have "fst e \<in> set (slot_keys year month [1..n])" unfolding keys .
    then show "length (fst (fst e)) = length (strftime_Y year) + 6 \<and> snd (fst e) \<in> set SHIFTS"
      by (rule slot_keys_wf)
  qed
  have c0: "\<forall>entry \<in> set (assignments s1). \<forall>needed \<in> set ROLES_NEEDED.
         count_list (violations s1) (missing_role (fst (fst entry)) (snd (fst entry)) needed) =
         (if needed \<in> roles_present (snd entry) then 0 else 1)"
    unfolding v1 using violations_count[OF d wf] by blast
  have c: "\<forall>entry \<in> set (assignments s1).
       \<forall>needed \<in> set [''Full EMT'', ''Probationary EMT'', ''Observer''].
         count_list (violations s1)
           (fst (fst entry) @ '' '' @ snd (fst entry) @ '': missing role '' @ needed) =
         (if \<exists>nm pd. (nm, needed, pd) \<in> set (snd entry) then 0 else 1)"
    using c0 unfolding missing_role_def roles_present_iff ROLES_NEEDED_def .
  from v2 c len keys' show ?thesis unfolding s1_def by blast
qed

theorem generate_schedule_violations_witness:
  "(1::int) \<le> 2024 \<and> (2024::int) \<le> 9999 \<and> monthrange_ndays 2024 2 = Inr 29 \<and>
   str_accessor (map Availability (staff_df (Scheduler_init
     [\<lparr>Name = ''Alice'', Role = ''Full EMT'', Availability = Some ''AM'', Paid = True\<rparr>]
     240 None))) = Inr () \<and>
   count_list (violations (scheduler_after (generate_schedule
     (Scheduler_init [\<lparr>Name = ''Alice'', Role = ''Full EMT'', Availability = Some ''AM'', Paid = True\<rparr>]
        240 None) (\<lambda>i. i) 2024 2))) ''2024-02-01 AM: missing role Full EMT'' = 0 \<and>
   count_list (violations (scheduler_after (generate_schedule
     (Scheduler_init [\<lparr>Name = ''Alice'', Role = ''Full EMT'', Availability = Some ''AM'', Paid = True\<rparr>]
        240 None) (\<lambda>i. i) 2024 2))) ''2024-02-01 AM: missing role Observer'' = 1 \<and>
   count_list (violations (scheduler_after (generate_schedule
     (Scheduler_init [\<lparr>Name = ''Alice'', Role = ''Full EMT'', Availability = Some ''AM'', Paid = True\<rparr>]
        240 None) (\<lambda>i. i) 2024 2))) ''2024-02-01 Midday: missing role Full EMT'' = 1"
proof -
  define alice where
    "alice = \<lparr>Name = ''Alice'', Role = ''Full EMT'', Availability = Some ''AM'', Paid = True\<rparr>"
  define s0 where "s0 = Scheduler_init [alice] 240 None"
  define s1 where "s1 = scheduler_after (generate_schedule s0 (\<lambda>i. i) 2024 2)"
  note h = monthrange_ndays_2024_02
  have y: "(1::int) \<le> 2024" "(2024::int) \<le> 9999" by simp_all
  have df: "staff_df s0 = [alice]" by (simp add: s0_def Scheduler_init_def)
  have a: "str_accessor (map Availability (staff_df s0)) = Inr ()"
    by (simp add: df str_accessor_def alice_def)
  note t = generate_schedule_violations[OF y h a, of "\<lambda>i. i", folded s1_def]
  have cnt: "\<And>entry needed. entry \<in> set (assignments s1) \<Longrightarrow>
      needed \<in> set [''Full EMT'', ''Probationary EMT'', ''Observer''] \<Longrightarrow>
      count_list (violations s1)
           (fst (fst entry) @ '' '' @ snd (fst entry) @ '': missing role '' @ needed) =
         (if \<exists>nm pd. (nm, needed, pd) \<in> set (snd entry) then 0 else 1)"
    using t by blast
  have am: "available_rows [alice] ''AM'' = [alice]"
    by (simp add: available_rows_def getitem_mask_def str_contains_def alice_def)
  have mid: "available_rows [alice] ''Midday'' = []"
    by (simp add: available_rows_def getitem_mask_def str_contains_def alice_def)
  have k1: "(''2024-02-01'', ''AM'') \<in> set (slot_keys 2024 2 [1..29])"
    using slot_keys_member[of 1 "[1..29]" "''AM''" 2024 2]
    by (simp add: SHIFTS_def strftime_ymd_2024_02_01 del: strftime_ymd.simps)
  have k2: "(''2024-02-01'', ''Midday'') \<in> set (slot_keys 2024 2 [1..29])"
    using slot_keys_member[of 1 "[1..29]" "''Midday''" 2024 2]
    by (simp add: SHIFTS_def strftime_ymd_2024_02_01 del: strftime_ymd.simps)
  from slot_lookup[OF y h a k1, of "\<lambda>i. i"] obtain p1 where
    m1: "map_of (assignments s1) (''2024-02-01'', ''AM'') = Some p1"
    and f1: "sampled_from (available_rows (staff_df s0) ''AM'') p1"
    unfolding s1_def by auto
  have p1: "p1 = [(''Alice'', ''Full EMT'', True)]"
    using sampled_from_single[OF f1[unfolded df am]] by (simp add: pick_of_def alice_def)
  have e1: "((''2024-02-01'', ''AM''), [(''Alice'', ''Full EMT'', True)]) \<in> set (assignments s1)"
    using map_of_SomeD[OF m1] unfolding p1 .
  from slot_lookup[OF y h a k2, of "\<lambda>i. i"] obtain p2 where
    m2: "map_of (assignments s1) (''2024-02-01'', ''Midday'') = Some p2"
    and f2: "sampled_from (available_rows (staff_df s0) ''Midday'') p2"
    unfolding s1_def by auto
  have p2: "p2 = []"
    using f2 unfolding df mid by (simp add: sampled_from_Nil_iff)
  have e2: "((''2024-02-01'', ''Midday''), []) \<in> set (assignments s1)"
    using map_of_SomeD[OF m2] unfolding p2 .
  have c1: "count_list (violations s1) ''2024-02-01 AM: missing role Full EMT'' = 0"
    using cnt[OF e1, of "''Full EMT''"] by auto
  have c2: "count_list (violations s1) ''2024-02-01 AM: missing role Observer'' = 1"
    using cnt[OF e1, of "''Observer''"] by simp
  have c3: "count_list (violations s1) ''2024-02-01 Midday: missing role Full EMT'' = 1"
    using cnt[OF e2, of "''Full EMT''"] by simp
  from h a c1 c2 c3 show ?thesis unfolding s1_def s0_def alice_def by simp
qed

end
